theory Spec2Isabelle
  imports Complex_Main "HOL-Library.AList" "HOL-Library.Product_Lexorder"
begin

section \<open>Data model\<close>

text \<open>
  The scraper moves pandas data frames between an HTTP fetcher, three pagination loops and
  a pipeline that saves six CSV files. The embedding keeps that shape. The progress bars of
  \<^verbatim>\<open>tqdm\<close> are left out.

  A cell is a scalar: a missing value (None, NaN, NaT), an integer, a float (by the rational
  number it denotes), a string, or a \<^verbatim>\<open>datetime.date\<close>. A date is the triple
  (year, month, day) under the lexicographic order, which is the order of
  \<^verbatim>\<open>datetime.date\<close>.
\<close>

type_synonym date = "int \<times> int \<times> int"

datatype val = VNull | VInt int | VFloat rat | VStr string | VDate date

text \<open>
  A row maps column names to cells; a column the row does not mention reads as a missing
  value, as pandas fills it when frames with different columns are concatenated.
\<close>

type_synonym row = "(string \<times> val) list"

definition cell :: "row \<Rightarrow> string \<Rightarrow> val" where
  "cell r c = (case map_of r c of None \<Rightarrow> VNull | Some v \<Rightarrow> v)"

record dataframe =
  columns :: "string list"
  rows :: "row list"

datatype error =
    KeyError string
  | AttributeError string
  | IndexError
  | TypeError
  | ValueError
  | RequestException
  | JSONDecodeError
  | OSError string

text \<open>\<^verbatim>\<open>pd.DataFrame()\<close>: no columns, no rows.\<close>

definition DataFrame_empty :: dataframe where
  "DataFrame_empty = \<lparr>columns = [], rows = []\<rparr>"

text \<open>\<^verbatim>\<open>df.shape[0]\<close>\<close>

definition shape0 :: "dataframe \<Rightarrow> int" where
  "shape0 df = int (length (rows df))"

text \<open>Values in order of first appearance, as \<^verbatim>\<open>Series.unique()\<close> returns them.\<close>

definition unique :: "'a list \<Rightarrow> 'a list" where
  "unique xs = rev (remdups (rev xs))"

text \<open>
  \<^verbatim>\<open>pd.json_normalize(data)\<close> on a list of flat objects: the columns are the keys in order
  of first appearance, the rows are the objects.
\<close>

definition json_normalize :: "row list \<Rightarrow> dataframe" where
  "json_normalize objs = \<lparr>columns = unique (concat (map (map fst) objs)), rows = objs\<rparr>"

text \<open>\<^verbatim>\<open>df[c]\<close> raises KeyError on an absent column, \<^verbatim>\<open>df.c\<close> raises AttributeError.\<close>

definition getitem :: "dataframe \<Rightarrow> string \<Rightarrow> error + val list" where
  "getitem df c =
     (if c \<in> set (columns df) then Inr (map (\<lambda>r. cell r c) (rows df)) else Inl (KeyError c))"

definition getattr :: "dataframe \<Rightarrow> string \<Rightarrow> error + val list" where
  "getattr df c =
     (if c \<in> set (columns df) then Inr (map (\<lambda>r. cell r c) (rows df))
      else Inl (AttributeError c))"

text \<open>\<^verbatim>\<open>df[c] = v\<close> with a scalar: the column is created or overwritten in every row.\<close>

definition setitem :: "dataframe \<Rightarrow> string \<Rightarrow> val \<Rightarrow> dataframe" where
  "setitem df c v =
     \<lparr>columns = (if c \<in> set (columns df) then columns df else columns df @ [c]),
      rows = map (AList.update c v) (rows df)\<rparr>"

text \<open>\<^verbatim>\<open>df[c] = series\<close> with a series computed from the frame's own column.\<close>

definition setitem_series :: "dataframe \<Rightarrow> string \<Rightarrow> val list \<Rightarrow> dataframe" where
  "setitem_series df c vs =
     \<lparr>columns = (if c \<in> set (columns df) then columns df else columns df @ [c]),
      rows = map (\<lambda>(r, v). AList.update c v r) (zip (rows df) vs)\<rparr>"

text \<open>\<^verbatim>\<open>df_all.append(df)\<close>: a new frame, the rows of both in order, the union of the columns.\<close>

definition df_append :: "dataframe \<Rightarrow> dataframe \<Rightarrow> dataframe" where
  "df_append a b = \<lparr>columns = unique (columns a @ columns b), rows = rows a @ rows b\<rparr>"

text \<open>
  \<^verbatim>\<open>df.drop(labels, axis=1)\<close>: KeyError when a label is not a column, else the frame without
  those columns.
\<close>

definition drop_columns :: "dataframe \<Rightarrow> string list \<Rightarrow> error + dataframe" where
  "drop_columns df labels =
     (case filter (\<lambda>l. l \<notin> set (columns df)) labels of
        l # _ \<Rightarrow> Inl (KeyError l)
      | [] \<Rightarrow> Inr \<lparr>columns = filter (\<lambda>c. c \<notin> set labels) (columns df),
                   rows = map (filter (\<lambda>(c, v). c \<notin> set labels)) (rows df)\<rparr>)"

section \<open>The outside world\<close>

text \<open>
  One HTTP exchange is a request (URL and query parameters) and what came back: either
  \<^verbatim>\<open>requests.get\<close> raised, or a response with its status code, its body text and the
  result of \<^verbatim>\<open>response.json()\<close> (None when the body does not parse).
\<close>

record request =
  url :: string
  params :: "(string \<times> val) list"

datatype reply =
    NoResponse
  | Response (status_code: int) (response_text: string) (response_json: "row list option")

text \<open>A printed line is the list of its pieces; formatted values stay values.\<close>

datatype frag = S string | I int | V val | Vs "val list"

type_synonym line = "frag list"

text \<open>
  The world the run acts on: the HTTP exchanges made so far, the lines printed, the seconds
  slept, and the files written.
\<close>

record world =
  exchanges :: "(request \<times> reply) list"
  stdout :: "line list"
  slept :: int
  files :: "(string \<times> dataframe) list"

text \<open>
  What the run is given: the token of the absent \<^verbatim>\<open>config\<close> module, the API server (its
  answer may depend on how many calls came before), the cell-wise effect of the pandas
  conversions \<^verbatim>\<open>pd.to_datetime(...).dt.date\<close> and \<^verbatim>\<open>astype(float)\<close> (None when pandas
  raises; a cell pandas would turn into NaT or NaN is not modelled), and which paths
  \<^verbatim>\<open>to_csv\<close> can write.
\<close>

record env =
  API_TOKEN :: string
  server :: "nat \<Rightarrow> request \<Rightarrow> reply"
  to_date :: "val \<Rightarrow> date option"
  astype_float :: "val \<Rightarrow> rat option"
  writable :: "string \<Rightarrow> bool"

type_synonym 'a outcome = "(error + 'a) \<times> world"

definition print :: "line \<Rightarrow> world \<Rightarrow> world" where
  "print l w = w\<lparr>stdout := stdout w @ [l]\<rparr>"

definition wait_time_in_seconds :: int where
  "wait_time_in_seconds = 1"

definition sleep :: "int \<Rightarrow> world \<Rightarrow> world" where
  "sleep t w = w\<lparr>slept := slept w + t\<rparr>"

definition verbose :: bool where
  "verbose = True"

definition query_min_date :: date where
  "query_min_date = (2023, 1, 1)"

definition base_url :: string where
  "base_url = ''http://api.esportsearnings.com/v0''"

definition recent_tournaments :: string where
  "recent_tournaments = ''/LookupRecentTournaments''"

definition highest_earning_players_by_game :: string where
  "highest_earning_players_by_game = ''/LookupHighestEarningPlayersByGame''"

definition highest_earning_teams_by_game :: string where
  "highest_earning_teams_by_game = ''/LookupHighestEarningTeamsByGame''"

definition game_by_id :: string where
  "game_by_id = ''/LookupGameById''"

definition tournament_results_by_tournament_id :: string where
  "tournament_results_by_tournament_id = ''/LookupTournamentResultsByTournamentId''"

definition tournament_team_results_by_tournament_id :: string where
  "tournament_team_results_by_tournament_id = ''/LookupTournamentTeamResultsByTournamentId''"

section \<open>The HTTP fetcher\<close>

text \<open>
  \<^verbatim>\<open>get_data(url, params)\<close>: one GET. Status 200 with an empty body gives the empty frame,
  status 200 with a body gives the normalised JSON, any other status prints the code and
  gives the empty frame. The \<^verbatim>\<open>verbose\<close> argument of the source is never read.
\<close>

definition get_data :: "env \<Rightarrow> string \<Rightarrow> (string \<times> val) list \<Rightarrow> world \<Rightarrow> dataframe outcome" where
  "get_data E u ps w =
     (let rq = \<lparr>url = u, params = ps\<rparr>;
          response = server E (length (exchanges w)) rq;
          w1 = w\<lparr>exchanges := exchanges w @ [(rq, response)]\<rparr>
      in case response of
           NoResponse \<Rightarrow> (Inl RequestException, w1)
         | Response code txt js \<Rightarrow>
             if code = 200 then
               if txt = [] then (Inr DataFrame_empty, w1)
               else (case js of
                       None \<Rightarrow> (Inl JSONDecodeError, w1)
                     | Some data \<Rightarrow> (Inr (json_normalize data), w1))
             else (Inr DataFrame_empty, print [S ''Error: '', I code] w1))"

section \<open>Tournaments: post-processing and the offset-until-date loop\<close>

text \<open>
  A pandas conversion of a whole column raises as soon as one cell cannot be converted.
\<close>

fun convert_cells :: "(val \<Rightarrow> 'a option) \<Rightarrow> val list \<Rightarrow> error + 'a list" where
  "convert_cells f [] = Inr []"
| "convert_cells f (v # vs) =
     (case f v of
        None \<Rightarrow> Inl ValueError
      | Some v' \<Rightarrow> (case convert_cells f vs of Inl e \<Rightarrow> Inl e | Inr vs' \<Rightarrow> Inr (v' # vs')))"

text \<open>
  The body of the loop over \<^verbatim>\<open>date_columns\<close>: \<^verbatim>\<open>df[c] = pd.to_datetime(df[c])\<close> followed by
  \<^verbatim>\<open>df[c] = df[c].dt.date\<close>, the two assignments taken together.
\<close>

fun convert_date_columns :: "env \<Rightarrow> string list \<Rightarrow> dataframe \<Rightarrow> error + dataframe" where
  "convert_date_columns E [] df = Inr df"
| "convert_date_columns E (date_column # cs) df =
     (case getitem df date_column of
        Inl e \<Rightarrow> Inl e
      | Inr vs \<Rightarrow>
          (case convert_cells (to_date E) vs of
             Inl e \<Rightarrow> Inl e
           | Inr ds \<Rightarrow>
               convert_date_columns E cs (setitem_series df date_column (map VDate ds))))"

definition process_tournaments :: "env \<Rightarrow> dataframe \<Rightarrow> error + dataframe" where
  "process_tournaments E df =
     (case convert_date_columns E [''StartDate'', ''EndDate''] df of
        Inl e \<Rightarrow> Inl e
      | Inr df1 \<Rightarrow>
          (case getitem df1 ''TotalUSDPrize'' of
             Inl e \<Rightarrow> Inl e
           | Inr vs \<Rightarrow>
               (case convert_cells (astype_float E) vs of
                  Inl e \<Rightarrow> Inl e
                | Inr fs \<Rightarrow> Inr (setitem_series df1 ''TotalUSDPrize'' (map VFloat fs)))))"

text \<open>
  A Python \<^verbatim>\<open>while\<close> loop: \<open>step\<close> either leaves the loop with a result (the test was false,
  or something raised) or hands on the next state. A loop that never leaves has no value.
\<close>

partial_function (option) while_loop :: "('s \<Rightarrow> 'r + 's) \<Rightarrow> 's \<Rightarrow> 'r option" where
  "while_loop step s = (case step s of Inl r \<Rightarrow> Some r | Inr s' \<Rightarrow> while_loop step s')"

text \<open>The local variables of \<^verbatim>\<open>get_tournament_data\<close>.\<close>

record tournament_locals =
  offset :: int
  first_run :: bool
  df_all :: dataframe
  df :: dataframe

fun dates_of :: "val list \<Rightarrow> date list option" where
  "dates_of [] = Some []"
| "dates_of (VDate d # vs) = (case dates_of vs of None \<Rightarrow> None | Some ds \<Rightarrow> Some (d # ds))"
| "dates_of (_ # vs) = None"

text \<open>
  \<^verbatim>\<open>df_all.StartDate.min()\<close>: AttributeError without the column, NaN on no rows, the least
  date when the column holds dates only; a column that mixes dates with other values makes
  the comparison inside \<^verbatim>\<open>min\<close> raise.
\<close>

definition StartDate_min :: "dataframe \<Rightarrow> error + val" where
  "StartDate_min d =
     (case getattr d ''StartDate'' of
        Inl e \<Rightarrow> Inl e
      | Inr vs \<Rightarrow>
          (case dates_of vs of
             None \<Rightarrow> Inl TypeError
           | Some [] \<Rightarrow> Inr VNull
           | Some (x # xs) \<Rightarrow> Inr (VDate (fold min xs x))))"

text \<open>\<^verbatim>\<open>m > query_until_date\<close>: only a date compares with a date.\<close>

definition gt_date :: "val \<Rightarrow> date \<Rightarrow> error + bool" where
  "gt_date m query_until_date =
     (case m of VDate x \<Rightarrow> Inr (x > query_until_date) | _ \<Rightarrow> Inl TypeError)"

text \<open>
  The loop test
  \<^verbatim>\<open>first_run or df.shape[0] < limit or df_all.StartDate.min() > query_until_date\<close>,
  evaluated left to right.
\<close>

definition tournament_test :: "date \<Rightarrow> int \<Rightarrow> tournament_locals \<Rightarrow> error + bool" where
  "tournament_test query_until_date limit s =
     (if first_run s then Inr True
      else if shape0 (df s) < limit then Inr True
      else (case StartDate_min (df_all s) of
              Inl e \<Rightarrow> Inl e
            | Inr m \<Rightarrow> gt_date m query_until_date))"

definition tournament_params :: "env \<Rightarrow> int \<Rightarrow> (string \<times> val) list" where
  "tournament_params E off = [(''apikey'', VStr (API_TOKEN E)), (''offset'', VInt off)]"

definition tournament_body ::
  "env \<Rightarrow> int \<Rightarrow> bool \<Rightarrow> tournament_locals \<Rightarrow> world \<Rightarrow> tournament_locals outcome" where
  "tournament_body E limit vb s w =
     (case get_data E (base_url @ recent_tournaments) (tournament_params E (offset s)) w of
        (Inl e, w1) \<Rightarrow> (Inl e, w1)
      | (Inr fetched, w1) \<Rightarrow>
          (case process_tournaments E fetched of
             Inl e \<Rightarrow> (Inl e, w1)
           | Inr d \<Rightarrow>
               (let s' = \<lparr>offset = offset s + limit, first_run = False,
                          df_all = df_append (df_all s) d, df = d\<rparr>;
                    w2 = (if vb
                          then print [S ''('', I (shape0 d), S '', '', I (int (length (columns d))),
                                      S '')'', S '' '', I (offset s')] w1
                          else w1)
                in (Inr s', sleep wait_time_in_seconds w2))))"

definition tournament_step ::
  "env \<Rightarrow> date \<Rightarrow> int \<Rightarrow> bool \<Rightarrow> tournament_locals \<times> world
     \<Rightarrow> dataframe outcome + tournament_locals \<times> world" where
  "tournament_step E query_until_date limit vb sw =
     (case sw of (s, w) \<Rightarrow>
        (case tournament_test query_until_date limit s of
           Inl e \<Rightarrow> Inl (Inl e, w)
         | Inr False \<Rightarrow> Inl (Inr (df_all s), w)
         | Inr True \<Rightarrow>
             (case tournament_body E limit vb s w of
                (Inl e, w1) \<Rightarrow> Inl (Inl e, w1)
              | (Inr s', w1) \<Rightarrow> Inr (s', w1))))"

definition get_tournament_data ::
  "env \<Rightarrow> date \<Rightarrow> int \<Rightarrow> bool \<Rightarrow> world \<Rightarrow> dataframe outcome option" where
  "get_tournament_data E query_until_date limit vb w =
     while_loop (tournament_step E query_until_date limit vb)
       (\<lparr>offset = 0, first_run = True, df_all = DataFrame_empty, df = DataFrame_empty\<rparr>,
        print [S ''Getting tournament data''] w)"

section \<open>Games: one fetch per identifier\<close>

definition games_params :: "env \<Rightarrow> val \<Rightarrow> (string \<times> val) list" where
  "games_params E game_id = [(''apikey'', VStr (API_TOKEN E)), (''gameid'', game_id)]"

text \<open>
  The \<^verbatim>\<open>for game_id in tqdm(game_ids)\<close> loop of \<^verbatim>\<open>get_games_data\<close>, with the accumulator
  \<^verbatim>\<open>df_games\<close>. In verbose mode \<^verbatim>\<open>df_game.GameName.values[0]\<close> raises on a frame without
  that column or without rows.
\<close>

fun games_loop :: "env \<Rightarrow> bool \<Rightarrow> val list \<Rightarrow> dataframe \<Rightarrow> world \<Rightarrow> dataframe outcome" where
  "games_loop E vb [] df_games w = (Inr df_games, w)"
| "games_loop E vb (game_id # ids) df_games w =
     (case get_data E (base_url @ game_by_id) (games_params E game_id) w of
        (Inl e, w1) \<Rightarrow> (Inl e, w1)
      | (Inr fetched, w1) \<Rightarrow>
          (let df_game = setitem fetched ''GameId'' game_id;
               df_games' = df_append df_games df_game;
               w2 = sleep wait_time_in_seconds w1
           in if vb then
                (case getattr df_game ''GameName'' of
                   Inl e \<Rightarrow> (Inl e, w2)
                 | Inr [] \<Rightarrow> (Inl IndexError, w2)
                 | Inr (v # _) \<Rightarrow>
                     games_loop E vb ids df_games' (print [S ''Game Name: '', V v] w2))
              else games_loop E vb ids df_games' w2))"

definition get_games_data :: "env \<Rightarrow> val list \<Rightarrow> bool \<Rightarrow> world \<Rightarrow> dataframe outcome" where
  "get_games_data E game_ids vb w =
     games_loop E vb game_ids DataFrame_empty
       (print [S ''Getting games data for '', I (int (length game_ids)), S '' Games''] w)"

section \<open>Earnings: per identifier, pages until a short one\<close>

text \<open>The variables of the inner \<^verbatim>\<open>while not last_page\<close> loop of \<^verbatim>\<open>get_game_earnings\<close>.\<close>

record earnings_locals =
  page_offset :: int
  last_page :: bool
  df_game_earnings_all :: dataframe

definition earnings_params :: "env \<Rightarrow> val \<Rightarrow> int \<Rightarrow> (string \<times> val) list" where
  "earnings_params E game_id off =
     [(''apikey'', VStr (API_TOKEN E)), (''gameid'', game_id), (''offset'', VInt off)]"

definition earnings_step ::
  "env \<Rightarrow> string \<Rightarrow> val \<Rightarrow> int \<Rightarrow> bool \<Rightarrow> earnings_locals \<times> world
     \<Rightarrow> dataframe outcome + earnings_locals \<times> world" where
  "earnings_step E url_earnings game_id limit vb sw =
     (case sw of (s, w) \<Rightarrow>
        if last_page s then Inl (Inr (df_game_earnings_all s), w)
        else
          (case get_data E url_earnings (earnings_params E game_id (page_offset s)) w of
             (Inl e, w1) \<Rightarrow> Inl (Inl e, w1)
           | (Inr fetched, w1) \<Rightarrow>
               (let df_game_earnings = setitem fetched ''GameId'' game_id;
                    s' = \<lparr>page_offset = page_offset s + limit,
                          last_page = (shape0 df_game_earnings < limit),
                          df_game_earnings_all =
                            df_append (df_game_earnings_all s) df_game_earnings\<rparr>;
                    w2 = sleep wait_time_in_seconds w1;
                    w3 = (if vb
                          then print [S ''Game ID: '', V game_id, S '' | offset : '',
                                      I (page_offset s'), S '' | Num Results: '',
                                      I (shape0 df_game_earnings)] w2
                          else w2)
                in Inr (s', w3))))"

text \<open>The inner loop for one identifier, started with the accumulator built so far.\<close>

definition earnings_for_game ::
  "env \<Rightarrow> string \<Rightarrow> int \<Rightarrow> bool \<Rightarrow> val \<Rightarrow> dataframe \<Rightarrow> world \<Rightarrow> dataframe outcome option" where
  "earnings_for_game E url_earnings limit vb game_id acc w =
     while_loop (earnings_step E url_earnings game_id limit vb)
       (\<lparr>page_offset = 0, last_page = False, df_game_earnings_all = acc\<rparr>, w)"

text \<open>The \<^verbatim>\<open>for game_id in tqdm(game_ids)\<close> loop around it.\<close>

fun earnings_loop ::
  "env \<Rightarrow> string \<Rightarrow> int \<Rightarrow> bool \<Rightarrow> val list \<Rightarrow> dataframe \<Rightarrow> world \<Rightarrow> dataframe outcome option" where
  "earnings_loop E url_earnings limit vb [] acc w = Some (Inr acc, w)"
| "earnings_loop E url_earnings limit vb (game_id # ids) acc w =
     (case earnings_for_game E url_earnings limit vb game_id acc w of
        None \<Rightarrow> None
      | Some (Inl e, w1) \<Rightarrow> Some (Inl e, w1)
      | Some (Inr acc', w1) \<Rightarrow> earnings_loop E url_earnings limit vb ids acc' w1)"

definition get_game_earnings ::
  "env \<Rightarrow> val list \<Rightarrow> bool \<Rightarrow> int \<Rightarrow> bool \<Rightarrow> world \<Rightarrow> dataframe outcome option" where
  "get_game_earnings E game_ids teamplay limit vb w =
     (if teamplay
      then earnings_loop E (base_url @ highest_earning_teams_by_game) limit vb game_ids
             DataFrame_empty (print [S ''Getting Games Earnings Team Data''] w)
      else earnings_loop E (base_url @ highest_earning_players_by_game) limit vb game_ids
             DataFrame_empty (print [S ''Getting Games Earnings Solo Data''] w))"

section \<open>Tournament results: one fetch per identifier\<close>

definition results_params :: "env \<Rightarrow> val \<Rightarrow> (string \<times> val) list" where
  "results_params E tournament_id = [(''apikey'', VStr (API_TOKEN E)), (''tournamentid'', tournament_id)]"

fun results_loop ::
  "env \<Rightarrow> string \<Rightarrow> bool \<Rightarrow> val list \<Rightarrow> dataframe \<Rightarrow> world \<Rightarrow> dataframe outcome" where
  "results_loop E url_earnings vb [] acc w = (Inr acc, w)"
| "results_loop E url_earnings vb (tournament_id # ids) acc w =
     (case get_data E url_earnings (results_params E tournament_id) w of
        (Inl e, w1) \<Rightarrow> (Inl e, w1)
      | (Inr fetched, w1) \<Rightarrow>
          (let df_tournament_earnings = setitem fetched ''TournamentId'' tournament_id;
               acc' = df_append acc df_tournament_earnings;
               w2 = sleep wait_time_in_seconds w1
           in if vb then
                (case getattr df_tournament_earnings ''TournamentId'' of
                   Inl e \<Rightarrow> (Inl e, w2)
                 | Inr vs \<Rightarrow> results_loop E url_earnings vb ids acc' (print [Vs vs] w2))
              else results_loop E url_earnings vb ids acc' w2))"

definition get_tournament_earnings ::
  "env \<Rightarrow> val list \<Rightarrow> bool \<Rightarrow> bool \<Rightarrow> world \<Rightarrow> dataframe outcome" where
  "get_tournament_earnings E tournament_ids teamplay vb w =
     results_loop E
       (if teamplay then base_url @ tournament_team_results_by_tournament_id
        else base_url @ tournament_results_by_tournament_id)
       vb tournament_ids DataFrame_empty w"

section \<open>The pipeline\<close>

text \<open>Running one stage after another: a stage that raised or never returned ends the run.\<close>

definition and_then ::
  "'a outcome option \<Rightarrow> ('a \<Rightarrow> world \<Rightarrow> 'b outcome option) \<Rightarrow> 'b outcome option" where
  "and_then m k =
     (case m of None \<Rightarrow> None | Some (Inl e, w) \<Rightarrow> Some (Inl e, w) | Some (Inr x, w) \<Rightarrow> k x w)"

definition eq_int :: "val \<Rightarrow> int \<Rightarrow> bool" where
  "eq_int v n = (v = VInt n \<or> v = VFloat (of_int n))"

text \<open>\<^verbatim>\<open>df[df[c] == n]\<close>: the rows whose cell equals the number, all columns kept.\<close>

definition select_eq :: "dataframe \<Rightarrow> string \<Rightarrow> int \<Rightarrow> error + dataframe" where
  "select_eq d c n =
     (if c \<in> set (columns d) then Inr (d\<lparr>rows := filter (\<lambda>r. eq_int (cell r c) n) (rows d)\<rparr>)
      else Inl (KeyError c))"

text \<open>\<^verbatim>\<open>df.c.unique()\<close>\<close>

definition unique_of :: "dataframe \<Rightarrow> string \<Rightarrow> error + val list" where
  "unique_of d c = (case getattr d c of Inl e \<Rightarrow> Inl e | Inr vs \<Rightarrow> Inr (unique vs))"

text \<open>The six tables the run builds.\<close>

record tables =
  df_tournaments :: dataframe
  df_games :: dataframe
  df_solo_earnings :: dataframe
  df_team_earnings :: dataframe
  df_solo_tournament_earnings :: dataframe
  df_team_tournament_earnings :: dataframe

text \<open>The extraction part of \<^verbatim>\<open>main\<close>, up to the comment \<^verbatim>\<open># Final Postprocessing\<close>.\<close>

definition extraction :: "env \<Rightarrow> world \<Rightarrow> tables outcome option" where
  "extraction E w0 =
     and_then (get_tournament_data E query_min_date 100 verbose w0) (\<lambda>tournaments w1.
     and_then (Some (unique_of tournaments ''GameId'', print [S ''Getting Games Data''] w1))
       (\<lambda>game_ids w2.
     and_then (Some (get_games_data E game_ids verbose w2)) (\<lambda>games w3.
     and_then (Some (select_eq tournaments ''Teamplay'' 0, w3)) (\<lambda>solo_tournaments w4.
     and_then (Some (unique_of solo_tournaments ''GameId'', w4)) (\<lambda>solo_game_ids w5.
     and_then (get_game_earnings E solo_game_ids False 100 True w5) (\<lambda>solo_earnings w6.
     and_then (Some (select_eq tournaments ''Teamplay'' 1, w6)) (\<lambda>team_tournaments w7.
     and_then (Some (unique_of team_tournaments ''GameId'', w7)) (\<lambda>team_game_ids w8.
     and_then (get_game_earnings E team_game_ids True 100 True w8) (\<lambda>team_earnings w9.
     and_then (Some (unique_of solo_tournaments ''TournamentId'', w9))
       (\<lambda>solo_tournament_ids w10.
     and_then (Some (get_tournament_earnings E solo_tournament_ids False False w10))
       (\<lambda>solo_tournament_earnings w11.
     and_then (Some (unique_of team_tournaments ''TournamentId'', w11))
       (\<lambda>team_tournament_ids w12.
     and_then (Some (get_tournament_earnings E team_tournament_ids True False w12))
       (\<lambda>team_tournament_earnings w13.
     Some (Inr \<lparr>df_tournaments = tournaments, df_games = games,
                df_solo_earnings = solo_earnings, df_team_earnings = team_earnings,
                df_solo_tournament_earnings = solo_tournament_earnings,
                df_team_tournament_earnings = team_tournament_earnings\<rparr>, w13))))))))))))))"

text \<open>The two \<^verbatim>\<open>drop\<close> statements under \<^verbatim>\<open># Final Postprocessing\<close>.\<close>

definition final_postprocessing :: "tables \<Rightarrow> error + tables" where
  "final_postprocessing t =
     (case drop_columns (df_solo_earnings t) [''NameFirst'', ''NameLast''] of
        Inl e \<Rightarrow> Inl e
      | Inr solo_earnings \<Rightarrow>
          (case drop_columns (df_solo_tournament_earnings t) [''NameFirst'', ''NameLast''] of
             Inl e \<Rightarrow> Inl e
           | Inr solo_tournament_earnings \<Rightarrow>
               Inr (t\<lparr>df_solo_earnings := solo_earnings,
                      df_solo_tournament_earnings := solo_tournament_earnings\<rparr>)))"

text \<open>\<^verbatim>\<open>df.to_csv(path, index=False)\<close>: the file is written, or the write raises.\<close>

definition to_csv :: "env \<Rightarrow> dataframe \<Rightarrow> string \<Rightarrow> world \<Rightarrow> unit outcome option" where
  "to_csv E d path w =
     (if writable E path then Some (Inr (), w\<lparr>files := files w @ [(path, d)]\<rparr>)
      else Some (Inl (OSError path), w))"

text \<open>The six writes under \<^verbatim>\<open># Save Data\<close>.\<close>

definition save_data :: "env \<Rightarrow> tables \<Rightarrow> world \<Rightarrow> unit outcome option" where
  "save_data E t w =
     and_then (to_csv E (df_tournaments t) ''data/tournaments.csv'' w) (\<lambda>_ w.
     and_then (to_csv E (df_games t) ''data/games.csv'' w) (\<lambda>_ w.
     and_then (to_csv E (df_solo_earnings t) ''data/solo_earnings.csv'' w) (\<lambda>_ w.
     and_then (to_csv E (df_team_earnings t) ''data/team_earnings.csv'' w) (\<lambda>_ w.
     and_then (to_csv E (df_solo_tournament_earnings t) ''data/solo_tournament_earnings.csv'' w)
       (\<lambda>_ w.
     to_csv E (df_team_tournament_earnings t) ''data/team_tournament_earnings.csv'' w)))))"

definition main :: "env \<Rightarrow> world \<Rightarrow> unit outcome option" where
  "main E w =
     and_then (extraction E w) (\<lambda>t w1.
     and_then (Some (final_postprocessing t, w1)) (\<lambda>t' w2.
     save_data E t' w2))"

section \<open>Runs, pages and traces\<close>

subsection \<open>Runs of a loop\<close>

text \<open>
  \<open>iterate_steps n step s\<close> is the state after \<open>n\<close> passes through the loop that all
  went on; it is undefined (None) when an earlier pass left the loop.
\<close>

fun iterate_steps :: "nat \<Rightarrow> ('s \<Rightarrow> 'r + 's) \<Rightarrow> 's \<Rightarrow> 's option" where
  "iterate_steps 0 step s = Some s"
| "iterate_steps (Suc n) step s =
     (case step s of Inl r \<Rightarrow> None | Inr s' \<Rightarrow> iterate_steps n step s')"

subsection \<open>What a request brings back\<close>

text \<open>
  The frame \<^verbatim>\<open>get_data\<close> returns for a reply, the lines it prints for it, and the rows of
  that frame (none when the fetch raises).
\<close>

definition fetched :: "reply \<Rightarrow> error + dataframe" where
  "fetched rp =
     (case rp of
        NoResponse \<Rightarrow> Inl RequestException
      | Response code txt js \<Rightarrow>
          if code = 200 then
            if txt = [] then Inr DataFrame_empty
            else (case js of None \<Rightarrow> Inl JSONDecodeError | Some data \<Rightarrow> Inr (json_normalize data))
          else Inr DataFrame_empty)"

definition logged :: "reply \<Rightarrow> line list" where
  "logged rp =
     (case rp of
        NoResponse \<Rightarrow> []
      | Response code txt js \<Rightarrow> if code = 200 then [] else [[S ''Error: '', I code]])"

definition reply_rows :: "reply \<Rightarrow> row list" where
  "reply_rows rp = (case fetched rp of Inl e \<Rightarrow> [] | Inr f \<Rightarrow> rows f)"

text \<open>
  The rows of a reply with the column \<open>c\<close> set to the identifier, as the per-identifier
  extractors store them.
\<close>

definition tagged :: "string \<Rightarrow> val \<Rightarrow> reply \<Rightarrow> row list" where
  "tagged c ident rp = map (AList.update c ident) (reply_rows rp)"

subsection \<open>The pages of the tournament loop\<close>

text \<open>
  The effect of \<^verbatim>\<open>process_tournaments\<close> on one row, column by column.
\<close>

definition date_cell :: "env \<Rightarrow> string \<Rightarrow> row \<Rightarrow> row" where
  "date_cell E c r = AList.update c (VDate (the (to_date E (cell r c)))) r"

definition float_cell :: "env \<Rightarrow> string \<Rightarrow> row \<Rightarrow> row" where
  "float_cell E c r = AList.update c (VFloat (the (astype_float E (cell r c)))) r"

text \<open>
  A run of \<^verbatim>\<open>get_tournament_data\<close> that starts after \<open>n0\<close> earlier exchanges sends its
  \<open>k\<close>-th request (counted from 0) with offset \<open>k * limit\<close> as call number \<open>n0 + k\<close>.
  \<open>tournament_page\<close> is that page after post-processing, or the fault that fetching or
  post-processing raises; \<open>page_frame\<close> is the frame of a page without fault;
  \<open>pages_ok n\<close> says that the first \<open>n\<close> pages come without fault; \<open>accumulated n\<close> is
  \<^verbatim>\<open>df_all\<close> after \<open>n\<close> pages.
\<close>

definition tournament_request :: "env \<Rightarrow> int \<Rightarrow> request" where
  "tournament_request E off =
     \<lparr>url = base_url @ recent_tournaments, params = tournament_params E off\<rparr>"

definition tournament_page :: "env \<Rightarrow> nat \<Rightarrow> int \<Rightarrow> nat \<Rightarrow> error + dataframe" where
  "tournament_page E n0 limit k =
     (case fetched (server E (n0 + k) (tournament_request E (int k * limit))) of
        Inl e \<Rightarrow> Inl e
      | Inr f \<Rightarrow> process_tournaments E f)"

definition page_frame :: "env \<Rightarrow> nat \<Rightarrow> int \<Rightarrow> nat \<Rightarrow> dataframe" where
  "page_frame E n0 limit k =
     (case tournament_page E n0 limit k of Inl e \<Rightarrow> DataFrame_empty | Inr d \<Rightarrow> d)"

definition pages_ok :: "env \<Rightarrow> nat \<Rightarrow> int \<Rightarrow> nat \<Rightarrow> bool" where
  "pages_ok E n0 limit n =
     (\<forall>k<n. \<not> isl (tournament_page E n0 limit k))"

definition accumulated :: "env \<Rightarrow> nat \<Rightarrow> int \<Rightarrow> nat \<Rightarrow> dataframe" where
  "accumulated E n0 limit n = foldl df_append DataFrame_empty (map (page_frame E n0 limit) [0..<n])"

text \<open>
  The dates in the StartDate column of a frame.
\<close>

definition is_date :: "val \<Rightarrow> bool" where
  "is_date v = (case v of VDate x \<Rightarrow> True | _ \<Rightarrow> False)"

definition StartDates :: "dataframe \<Rightarrow> date list" where
  "StartDates d =
     List.map_filter (\<lambda>r. case cell r ''StartDate'' of VDate x \<Rightarrow> Some x | _ \<Rightarrow> None) (rows d)"

text \<open>
  The condition under which the loop test is false after \<open>n\<close> fetches: at least one fetch
  was made, the page fetched last has at least \<open>limit\<close> rows, and the least StartDate of all
  accumulated rows is at most the cutoff.
\<close>

definition stops_after :: "env \<Rightarrow> nat \<Rightarrow> date \<Rightarrow> int \<Rightarrow> nat \<Rightarrow> bool" where
  "stops_after E n0 query_until_date limit n =
     (0 < n \<and> limit \<le> shape0 (page_frame E n0 limit (n - 1)) \<and>
      Min (set (StartDates (accumulated E n0 limit n))) \<le> query_until_date)"

text \<open>
  The local variables after \<open>n\<close> passes, and the condition for the loop to get that far.
\<close>

definition locals_after :: "env \<Rightarrow> nat \<Rightarrow> int \<Rightarrow> nat \<Rightarrow> tournament_locals" where
  "locals_after E n0 limit n =
     \<lparr>offset = int n * limit, first_run = (n = 0), df_all = accumulated E n0 limit n,
      df = (if n = 0 then DataFrame_empty else page_frame E n0 limit (n - 1))\<rparr>"

definition continues_through :: "env \<Rightarrow> nat \<Rightarrow> date \<Rightarrow> int \<Rightarrow> nat \<Rightarrow> bool" where
  "continues_through E n0 query_until_date limit n =
     (pages_ok E n0 limit n \<and> (\<forall>k<n. \<not> stops_after E n0 query_until_date limit k))"

subsection \<open>The pages of the earnings loop\<close>

text \<open>
  The same for the inner loop of \<^verbatim>\<open>get_game_earnings\<close> for one identifier: its \<open>k\<close>-th
  request, the reply to it, the exchange recorded, the tagged frame, and the accumulator
  after \<open>n\<close> pages. A page is short when it has fewer than \<open>limit\<close> rows; the loop stops
  after \<open>n\<close> fetches when the \<open>n\<close>-th page is short.
\<close>

definition earnings_request :: "env \<Rightarrow> string \<Rightarrow> val \<Rightarrow> int \<Rightarrow> request" where
  "earnings_request E url_earnings game_id off =
     \<lparr>url = url_earnings, params = earnings_params E game_id off\<rparr>"

definition earnings_reply :: "env \<Rightarrow> string \<Rightarrow> val \<Rightarrow> int \<Rightarrow> nat \<Rightarrow> nat \<Rightarrow> reply" where
  "earnings_reply E url_earnings game_id limit n0 k =
     server E (n0 + k) (earnings_request E url_earnings game_id (int k * limit))"

definition earnings_exchange ::
  "env \<Rightarrow> string \<Rightarrow> val \<Rightarrow> int \<Rightarrow> nat \<Rightarrow> nat \<Rightarrow> request \<times> reply" where
  "earnings_exchange E url_earnings game_id limit n0 k =
     (earnings_request E url_earnings game_id (int k * limit),
      earnings_reply E url_earnings game_id limit n0 k)"

definition earnings_fetch_ok :: "env \<Rightarrow> string \<Rightarrow> val \<Rightarrow> int \<Rightarrow> nat \<Rightarrow> nat \<Rightarrow> bool" where
  "earnings_fetch_ok E url_earnings game_id limit n0 n =
     (\<forall>k<n. \<not> isl (fetched (earnings_reply E url_earnings game_id limit n0 k)))"

definition short_page :: "env \<Rightarrow> string \<Rightarrow> val \<Rightarrow> int \<Rightarrow> nat \<Rightarrow> nat \<Rightarrow> bool" where
  "short_page E url_earnings game_id limit n0 k =
     (int (length (reply_rows (earnings_reply E url_earnings game_id limit n0 k))) < limit)"

definition earnings_frame :: "env \<Rightarrow> string \<Rightarrow> val \<Rightarrow> int \<Rightarrow> nat \<Rightarrow> nat \<Rightarrow> dataframe" where
  "earnings_frame E url_earnings game_id limit n0 k =
     (case fetched (earnings_reply E url_earnings game_id limit n0 k) of
        Inl e \<Rightarrow> DataFrame_empty
      | Inr f \<Rightarrow> setitem f ''GameId'' game_id)"

definition earnings_accumulated ::
  "env \<Rightarrow> string \<Rightarrow> val \<Rightarrow> int \<Rightarrow> nat \<Rightarrow> dataframe \<Rightarrow> nat \<Rightarrow> dataframe" where
  "earnings_accumulated E url_earnings game_id limit n0 acc n =
     foldl df_append acc (map (earnings_frame E url_earnings game_id limit n0) [0..<n])"

definition earnings_stops :: "env \<Rightarrow> string \<Rightarrow> val \<Rightarrow> int \<Rightarrow> nat \<Rightarrow> nat \<Rightarrow> bool" where
  "earnings_stops E url_earnings game_id limit n0 n =
     (0 < n \<and> short_page E url_earnings game_id limit n0 (n - 1))"

definition earnings_locals_after ::
  "env \<Rightarrow> string \<Rightarrow> val \<Rightarrow> int \<Rightarrow> nat \<Rightarrow> dataframe \<Rightarrow> nat \<Rightarrow> earnings_locals" where
  "earnings_locals_after E url_earnings game_id limit n0 acc n =
     \<lparr>page_offset = int n * limit,
      last_page = earnings_stops E url_earnings game_id limit n0 n,
      df_game_earnings_all = earnings_accumulated E url_earnings game_id limit n0 acc n\<rparr>"

definition earnings_continues :: "env \<Rightarrow> string \<Rightarrow> val \<Rightarrow> int \<Rightarrow> nat \<Rightarrow> nat \<Rightarrow> bool" where
  "earnings_continues E url_earnings game_id limit n0 n =
     (earnings_fetch_ok E url_earnings game_id limit n0 n \<and>
      (\<forall>k<n. \<not> earnings_stops E url_earnings game_id limit n0 k))"

subsection \<open>Requests of the single-fetch extractors\<close>

definition games_request :: "env \<Rightarrow> val \<Rightarrow> request" where
  "games_request E game_id = \<lparr>url = base_url @ game_by_id, params = games_params E game_id\<rparr>"

definition results_request :: "env \<Rightarrow> string \<Rightarrow> val \<Rightarrow> request" where
  "results_request E url_earnings tournament_id =
     \<lparr>url = url_earnings, params = results_params E tournament_id\<rparr>"

subsection \<open>Files\<close>

text \<open>
  A computation keeps the files \<open>F\<close> when every outcome it can have leaves exactly these
  files written.
\<close>

definition keeps_files :: "(string \<times> dataframe) list \<Rightarrow> 'a outcome option \<Rightarrow> bool" where
  "keeps_files F m = (\<forall>r w'. m = Some (r, w') \<longrightarrow> files w' = F)"

subsection \<open>Example inputs\<close>

text \<open>
  A tournament row as the API sends it and as \<^verbatim>\<open>process_tournaments\<close> leaves it, with
  conversions that know the two dates and the one prize of the examples.
\<close>

definition example_row :: "string \<Rightarrow> row" where
  "example_row sd =
     [(''TournamentId'', VInt 1), (''GameId'', VInt 151), (''StartDate'', VStr sd),
      (''EndDate'', VStr sd), (''TotalUSDPrize'', VStr ''1234.50''), (''Teamplay'', VInt 0)]"

definition processed_example_row :: "date \<Rightarrow> row" where
  "processed_example_row x =
     [(''TournamentId'', VInt 1), (''GameId'', VInt 151), (''StartDate'', VDate x),
      (''EndDate'', VDate x), (''TotalUSDPrize'', VFloat (2469 / 2)), (''Teamplay'', VInt 0)]"

definition example_to_date :: "val \<Rightarrow> date option" where
  "example_to_date v =
     (if v = VStr ''2023-06-01'' then Some (2023, 6, 1)
      else if v = VStr ''2022-11-01'' then Some (2022, 11, 1) else None)"

definition example_astype_float :: "val \<Rightarrow> rat option" where
  "example_astype_float v = (if v = VStr ''1234.50'' then Some (2469 / 2) else None)"

definition start_world :: world where
  "start_world = \<lparr>exchanges = [], stdout = [], slept = 0, files = []\<rparr>"

text \<open>
  The scenario server answers the first request with \<open>a\<close> tournaments that started on
  2023-06-01, the second with \<open>b\<close> tournaments that started on 2022-11-01, and every later
  one with an empty body.
\<close>

definition scenario_server :: "nat \<Rightarrow> nat \<Rightarrow> nat \<Rightarrow> request \<Rightarrow> reply" where
  "scenario_server a b k rq =
     (if k = 0 then Response 200 ''[...]'' (Some (replicate a (example_row ''2023-06-01'')))
      else if k = 1 then Response 200 ''[...]'' (Some (replicate b (example_row ''2022-11-01'')))
      else Response 200 [] None)"

definition scenario_env :: "nat \<Rightarrow> nat \<Rightarrow> env" where
  "scenario_env a b =
     \<lparr>API_TOKEN = ''token'', server = scenario_server a b, to_date = example_to_date,
      astype_float = example_astype_float, writable = (\<lambda>p. True)\<rparr>"

text \<open>
  A server that fails every request with the given status, and one that answers every
  request with status 200 and an empty body.
\<close>

definition failing_server :: "int \<Rightarrow> nat \<Rightarrow> request \<Rightarrow> reply" where
  "failing_server code k rq = Response code ''Internal Server Error'' None"

definition failing_env :: "int \<Rightarrow> env" where
  "failing_env code =
     \<lparr>API_TOKEN = ''token'', server = failing_server code, to_date = example_to_date,
      astype_float = example_astype_float, writable = (\<lambda>p. True)\<rparr>"

definition empty_body_server :: "nat \<Rightarrow> request \<Rightarrow> reply" where
  "empty_body_server k rq = Response 200 [] None"

definition empty_body_env :: env where
  "empty_body_env =
     \<lparr>API_TOKEN = ''token'', server = empty_body_server, to_date = example_to_date,
      astype_float = example_astype_float, writable = (\<lambda>p. True)\<rparr>"

text \<open>
  A server whose tournaments lack the prize column.
\<close>

definition no_prize_server :: "nat \<Rightarrow> request \<Rightarrow> reply" where
  "no_prize_server k rq =
     Response 200 ''[...]''
       (Some [[(''TournamentId'', VInt 1), (''StartDate'', VStr ''2023-06-01''),
               (''EndDate'', VStr ''2023-06-01'')]])"

definition no_prize_env :: env where
  "no_prize_env =
     \<lparr>API_TOKEN = ''token'', server = no_prize_server, to_date = example_to_date,
      astype_float = example_astype_float, writable = (\<lambda>p. True)\<rparr>"

text \<open>
  An example API: the game lookup and the result lookup echo the identifier 999 whatever
  was asked; the player leaderboard of game 7 has three entries, served two per page, and any
  other leaderboard is empty. The runs of the three per-identifier extractors on the
  identifiers 7 and 42 against it, and the tables they return.
\<close>

definition player_row :: "int \<Rightarrow> row" where
  "player_row p =
     [(''PlayerId'', VInt p), (''NameFirst'', VStr ''Ada''), (''NameLast'', VStr ''Doe''),
      (''GameId'', VInt 999)]"

definition api_server :: "nat \<Rightarrow> request \<Rightarrow> reply" where
  "api_server k rq =
     (if url rq = base_url @ game_by_id then
        Response 200 ''[...]'' (Some [[(''GameName'', VStr ''Chess''), (''GameId'', VInt 999)]])
      else if url rq = base_url @ highest_earning_players_by_game then
        (if map_of (params rq) ''gameid'' = Some (VInt 7) \<and>
            map_of (params rq) ''offset'' = Some (VInt 0)
         then Response 200 ''[...]'' (Some [player_row 1, player_row 2])
         else if map_of (params rq) ''gameid'' = Some (VInt 7) \<and>
            map_of (params rq) ''offset'' = Some (VInt 2)
         then Response 200 ''[...]'' (Some [player_row 3])
         else Response 200 ''[]'' (Some []))
      else if url rq = base_url @ tournament_results_by_tournament_id then
        Response 200 ''[...]'' (Some [[(''PlayerId'', VInt 3), (''TournamentId'', VInt 999)]])
      else Response 404 ''Not Found'' None)"

definition api_env :: env where
  "api_env =
     \<lparr>API_TOKEN = ''token'', server = api_server, to_date = example_to_date,
      astype_float = example_astype_float, writable = (\<lambda>p. True)\<rparr>"

definition example_ids :: "val list" where
  "example_ids = [VInt 7, VInt 42]"

definition players_url :: string where
  "players_url = base_url @ highest_earning_players_by_game"

definition games_table :: dataframe where
  "games_table =
     \<lparr>columns = [''GameName'', ''GameId''],
      rows = [[(''GameName'', VStr ''Chess''), (''GameId'', VInt 7)],
              [(''GameName'', VStr ''Chess''), (''GameId'', VInt 42)]]\<rparr>"

definition earnings_table :: dataframe where
  "earnings_table =
     \<lparr>columns = [''PlayerId'', ''NameFirst'', ''NameLast'', ''GameId''],
      rows = [[(''PlayerId'', VInt 1), (''NameFirst'', VStr ''Ada''), (''NameLast'', VStr ''Doe''),
               (''GameId'', VInt 7)],
              [(''PlayerId'', VInt 2), (''NameFirst'', VStr ''Ada''), (''NameLast'', VStr ''Doe''),
               (''GameId'', VInt 7)],
              [(''PlayerId'', VInt 3), (''NameFirst'', VStr ''Ada''), (''NameLast'', VStr ''Doe''),
               (''GameId'', VInt 7)]]\<rparr>"

definition results_table :: dataframe where
  "results_table =
     \<lparr>columns = [''PlayerId'', ''TournamentId''],
      rows = [[(''PlayerId'', VInt 3), (''TournamentId'', VInt 7)],
              [(''PlayerId'', VInt 3), (''TournamentId'', VInt 42)]]\<rparr>"

definition games_run :: "dataframe outcome" where
  "games_run = get_games_data api_env example_ids False start_world"

definition earnings_run :: "dataframe outcome option" where
  "earnings_run = get_game_earnings api_env example_ids False 2 False start_world"

definition results_run :: "dataframe outcome" where
  "results_run = get_tournament_earnings api_env example_ids False False start_world"

text \<open>
  A server for a whole pipeline run: one full page of 100 solo tournaments of game 151 that
  started before the cutoff, one game, a leaderboard of one player, and tournament results
  that carry the name columns or not.
\<close>

definition result_row :: "bool \<Rightarrow> row" where
  "result_row named =
     (if named
      then [(''PlayerId'', VInt 3), (''NameFirst'', VStr ''Ada''), (''NameLast'', VStr ''Doe''),
            (''TournamentId'', VInt 999)]
      else [(''PlayerId'', VInt 3), (''TournamentId'', VInt 999)])"

definition pipeline_server :: "bool \<Rightarrow> nat \<Rightarrow> request \<Rightarrow> reply" where
  "pipeline_server named k rq =
     (if url rq = base_url @ recent_tournaments then
        Response 200 ''[...]'' (Some (replicate 100 (example_row ''2022-11-01'')))
      else if url rq = base_url @ game_by_id then
        Response 200 ''[...]'' (Some [[(''GameName'', VStr ''Chess''), (''GameId'', VInt 999)]])
      else if url rq = base_url @ highest_earning_players_by_game then
        Response 200 ''[...]'' (Some [player_row 1])
      else if url rq = base_url @ tournament_results_by_tournament_id then
        Response 200 ''[...]'' (Some [result_row named])
      else Response 404 ''Not Found'' None)"

definition pipeline_env :: "bool \<Rightarrow> env" where
  "pipeline_env named =
     \<lparr>API_TOKEN = ''token'', server = pipeline_server named, to_date = example_to_date,
      astype_float = example_astype_float, writable = (\<lambda>p. True)\<rparr>"

text \<open>
  Six small tables before and after the final post-processing.
\<close>

definition example_tables :: tables where
  "example_tables =
     \<lparr>df_tournaments = json_normalize [example_row ''2023-06-01''],
      df_games = json_normalize [[(''GameName'', VStr ''Chess''), (''GameId'', VInt 151)]],
      df_solo_earnings =
        json_normalize [[(''PlayerId'', VInt 3), (''NameFirst'', VStr ''Ada''), (''NameLast'', VStr ''Doe''),
                         (''TotalUSDPrize'', VStr ''10.00''), (''GameId'', VInt 151)]],
      df_team_earnings =
        json_normalize [[(''TeamId'', VInt 9), (''TeamName'', VStr ''Rooks''), (''GameId'', VInt 151)]],
      df_solo_tournament_earnings =
        json_normalize [[(''PlayerId'', VInt 3), (''NameFirst'', VStr ''Ada''), (''NameLast'', VStr ''Doe''),
                         (''Ranking'', VInt 1), (''TournamentId'', VInt 1)]],
      df_team_tournament_earnings =
        json_normalize [[(''TeamId'', VInt 9), (''TeamName'', VStr ''Rooks''), (''TournamentId'', VInt 2)]]\<rparr>"

definition example_tables_stripped :: tables where
  "example_tables_stripped =
     example_tables
       \<lparr>df_solo_earnings :=
          \<lparr>columns = [''PlayerId'', ''TotalUSDPrize'', ''GameId''],
           rows = [[(''PlayerId'', VInt 3), (''TotalUSDPrize'', VStr ''10.00''), (''GameId'', VInt 151)]]\<rparr>,
        df_solo_tournament_earnings :=
          \<lparr>columns = [''PlayerId'', ''Ranking'', ''TournamentId''],
           rows = [[(''PlayerId'', VInt 3), (''Ranking'', VInt 1), (''TournamentId'', VInt 1)]]\<rparr>\<rparr>"

section \<open>Properties\<close>

lemma while_loop_iterate:
  "iterate_steps n step s = Some s' \<Longrightarrow> while_loop step s = while_loop step s'"
proof (induction n arbitrary: s)
  case 0
  then show ?case by simp
next
  case (Suc n)
  then obtain s1 where s1: "step s = Inr s1" "iterate_steps n step s1 = Some s'"
    by (auto split: sum.splits)
  have "while_loop step s = while_loop step s1"
    by (subst while_loop.simps) (simp add: s1)
  with Suc.IH [OF s1(2)] show ?case by simp
qed

lemma while_loop_SomeI:
  assumes "iterate_steps n step s = Some s'" and "step s' = Inl r"
  shows "while_loop step s = Some r"
proof -
  have "while_loop step s' = Some r"
    by (subst while_loop.simps) (simp add: assms(2))
  with while_loop_iterate [OF assms(1)] show ?thesis by simp
qed

lemma while_loop_SomeD:
  assumes "while_loop step s = Some r"
  shows "\<exists>n s'. iterate_steps n step s = Some s' \<and> step s' = Inl r"
proof (induction step s r rule: while_loop.raw_induct)
  case (1 loop step s r)
  show ?case
  proof (cases "step s")
    case (Inl r')
    with 1(2) have "r' = r" by simp
    with Inl have "iterate_steps 0 step s = Some s \<and> step s = Inl r" by simp
    then show ?thesis by blast
  next
    case (Inr s1)
    with 1(2) have "loop step s1 = Some r" by simp
    from 1(1) [OF this] obtain n s' where "iterate_steps n step s1 = Some s'" "step s' = Inl r"
      by blast
    with Inr have "iterate_steps (Suc n) step s = Some s' \<and> step s' = Inl r" by simp
    then show ?thesis by blast
  qed
qed (fact assms)

lemma iterate_steps_Suc_last:
  "iterate_steps (Suc n) step s =
     (case iterate_steps n step s of
        None \<Rightarrow> None
      | Some s' \<Rightarrow> (case step s' of Inl r \<Rightarrow> None | Inr s'' \<Rightarrow> Some s''))"
proof (induction n arbitrary: s)
  case 0
  show ?case by (simp split: sum.splits)
next
  case (Suc n)
  show ?case
  proof (cases "step s")
    case (Inl r)
    then show ?thesis by simp
  next
    case (Inr s1)
    with Suc.IH [of s1] show ?thesis by simp
  qed
qed

lemma iterate_steps_unique:
  "iterate_steps n step s = Some s1 \<Longrightarrow> step s1 = Inl r1 \<Longrightarrow>
   iterate_steps m step s = Some s2 \<Longrightarrow> step s2 = Inl r2 \<Longrightarrow> n = m \<and> s1 = s2"
proof (induction n arbitrary: s m)
  case 0
  then show ?case by (cases m) auto
next
  case (Suc n)
  then show ?case by (cases m) (auto split: sum.splits)
qed

lemma get_data_eq:
  "get_data E u ps w =
     (let rq = \<lparr>url = u, params = ps\<rparr>; rp = server E (length (exchanges w)) rq
      in (fetched rp, w\<lparr>exchanges := exchanges w @ [(rq, rp)], stdout := stdout w @ logged rp\<rparr>))"
  by (simp add: get_data_def fetched_def logged_def print_def Let_def
      split: reply.splits option.splits)

lemma set_unique [simp]: "set (unique xs) = set xs"
  by (simp add: unique_def)

lemma cell_update [simp]: "cell (AList.update c v r) c' = (if c' = c then v else cell r c')"
  by (simp add: cell_def update_conv')

lemma convert_cells_Inr:
  "convert_cells f vs = Inr xs \<Longrightarrow> xs = map (\<lambda>v. the (f v)) vs \<and> (\<forall>v\<in>set vs. f v \<noteq> None)"
  by (induction vs arbitrary: xs) (auto split: option.splits sum.splits)

lemma convert_cells_total:
  "\<forall>v\<in>set vs. f v \<noteq> None \<Longrightarrow> convert_cells f vs = Inr (map (\<lambda>v. the (f v)) vs)"
  by (induction vs) auto

lemma zip_map_same: "zip xs (map h xs) = map (\<lambda>x. (x, h x)) xs"
  by (induction xs) auto

lemma setitem_series_map:
  "c \<in> set (columns d) \<Longrightarrow>
   setitem_series d c (map g (map (\<lambda>r. cell r c) (rows d))) =
     d\<lparr>rows := map (\<lambda>r. AList.update c (g (cell r c)) r) (rows d)\<rparr>"
  by (simp add: setitem_series_def zip_map_same o_def)

lemma convert_date_columns_Inr:
  "convert_date_columns E cs d = Inr d' \<Longrightarrow>
     set cs \<subseteq> set (columns d) \<and> columns d' = columns d \<and>
     rows d' = map (fold (date_cell E) cs) (rows d) \<and>
     (\<forall>r\<in>set (rows d). \<forall>i<length cs.
        to_date E (cell (fold (date_cell E) (take i cs) r) (cs ! i)) \<noteq> None)"
proof (induction cs arbitrary: d)
  case Nil
  then show ?case by simp
next
  case (Cons c cs)
  from Cons.prems obtain ds where c: "c \<in> set (columns d)"
    and ds: "convert_cells (to_date E) (map (\<lambda>r. cell r c) (rows d)) = Inr ds"
    and rest: "convert_date_columns E cs (setitem_series d c (map VDate ds)) = Inr d'"
    by (auto simp: getitem_def split: sum.splits if_splits)
  from convert_cells_Inr [OF ds]
  have ds_eq: "ds = map (\<lambda>v. the (to_date E v)) (map (\<lambda>r. cell r c) (rows d))"
    and ok: "\<forall>r\<in>set (rows d). to_date E (cell r c) \<noteq> None"
    by auto
  have step: "setitem_series d c (map VDate ds) = d\<lparr>rows := map (date_cell E c) (rows d)\<rparr>"
    using setitem_series_map [OF c, of "\<lambda>v. VDate (the (to_date E v))"]
    by (simp add: ds_eq date_cell_def o_def)
  from Cons.IH [OF rest [unfolded step]]
  have ih: "set cs \<subseteq> set (columns d)" "columns d' = columns d"
    "rows d' = map (fold (date_cell E) cs) (map (date_cell E c) (rows d))"
    "\<forall>r\<in>set (rows d). \<forall>i<length cs.
        to_date E (cell (fold (date_cell E) (take i cs) (date_cell E c r)) (cs ! i)) \<noteq> None"
    by auto
  have "\<forall>r\<in>set (rows d). \<forall>i<length (c # cs).
        to_date E (cell (fold (date_cell E) (take i (c # cs)) r) ((c # cs) ! i)) \<noteq> None"
  proof (intro ballI allI impI)
    fix r i assume r: "r \<in> set (rows d)" and i: "i < length (c # cs)"
    show "to_date E (cell (fold (date_cell E) (take i (c # cs)) r) ((c # cs) ! i)) \<noteq> None"
    proof (cases i)
      case 0
      with ok r show ?thesis by simp
    next
      case (Suc j)
      with i ih(4) r show ?thesis by simp
    qed
  qed
  with c ih show ?case by (simp add: o_def)
qed

lemma process_tournaments_Inr:
  assumes "process_tournaments E d = Inr d'"
  shows "{''StartDate'', ''EndDate'', ''TotalUSDPrize''} \<subseteq> set (columns d)"
    and "columns d' = columns d"
    and "rows d' = map (\<lambda>r. float_cell E ''TotalUSDPrize''
                        (date_cell E ''EndDate'' (date_cell E ''StartDate'' r))) (rows d)"
    and "\<forall>r\<in>set (rows d). to_date E (cell r ''StartDate'') \<noteq> None \<and>
            to_date E (cell r ''EndDate'') \<noteq> None \<and>
            astype_float E (cell r ''TotalUSDPrize'') \<noteq> None"
proof -
  from assms obtain d1 fs where
    d1: "convert_date_columns E [''StartDate'', ''EndDate''] d = Inr d1"
    and c: "''TotalUSDPrize'' \<in> set (columns d1)"
    and fs: "convert_cells (astype_float E) (map (\<lambda>r. cell r ''TotalUSDPrize'') (rows d1)) = Inr fs"
    and d': "d' = setitem_series d1 ''TotalUSDPrize'' (map VFloat fs)"
    by (auto simp: process_tournaments_def getitem_def split: sum.splits if_splits)
  from convert_date_columns_Inr [OF d1]
  have a: "{''StartDate'', ''EndDate''} \<subseteq> set (columns d)" "columns d1 = columns d"
    "rows d1 = map (\<lambda>r. date_cell E ''EndDate'' (date_cell E ''StartDate'' r)) (rows d)"
    and b: "\<And>r i. r \<in> set (rows d) \<Longrightarrow> i < 2 \<Longrightarrow>
        to_date E (cell (fold (date_cell E) (take i [''StartDate'', ''EndDate'']) r)
          ([''StartDate'', ''EndDate''] ! i)) \<noteq> None"
    by (auto simp: numeral_2_eq_2)
  from convert_cells_Inr [OF fs]
  have fs_eq: "fs = map (\<lambda>v. the (astype_float E v)) (map (\<lambda>r. cell r ''TotalUSDPrize'') (rows d1))"
    and ok: "\<forall>r\<in>set (rows d1). astype_float E (cell r ''TotalUSDPrize'') \<noteq> None"
    by auto
  have step: "d' = d1\<lparr>rows := map (float_cell E ''TotalUSDPrize'') (rows d1)\<rparr>"
    using setitem_series_map [OF c, of "\<lambda>v. VFloat (the (astype_float E v))"]
    by (simp add: d' fs_eq float_cell_def o_def)
  show "{''StartDate'', ''EndDate'', ''TotalUSDPrize''} \<subseteq> set (columns d)"
    using a c by simp
  show "columns d' = columns d" using step a by simp
  show "rows d' = map (\<lambda>r. float_cell E ''TotalUSDPrize''
                        (date_cell E ''EndDate'' (date_cell E ''StartDate'' r))) (rows d)"
    using step a by (simp add: o_def)
  show "\<forall>r\<in>set (rows d). to_date E (cell r ''StartDate'') \<noteq> None \<and>
            to_date E (cell r ''EndDate'') \<noteq> None \<and>
            astype_float E (cell r ''TotalUSDPrize'') \<noteq> None"
  proof
    fix r assume r: "r \<in> set (rows d)"
    from b [OF r, of 0] have 1: "to_date E (cell r ''StartDate'') \<noteq> None" by simp
    from b [OF r, of 1] have 2: "to_date E (cell r ''EndDate'') \<noteq> None"
      by (simp add: date_cell_def)
    from ok r a have "astype_float E (cell (date_cell E ''EndDate'' (date_cell E ''StartDate'' r))
        ''TotalUSDPrize'') \<noteq> None" by simp
    then have 3: "astype_float E (cell r ''TotalUSDPrize'') \<noteq> None" by (simp add: date_cell_def)
    from 1 2 3 show "to_date E (cell r ''StartDate'') \<noteq> None \<and>
            to_date E (cell r ''EndDate'') \<noteq> None \<and>
            astype_float E (cell r ''TotalUSDPrize'') \<noteq> None" by simp
  qed
qed

lemma tournament_body_eq:
  assumes "length (exchanges w) = n0 + k" and "offset s = int k * limit"
  shows "\<exists>w'. length (exchanges w') = Suc (n0 + k) \<and> files w' = files w \<and>
           tournament_body E limit vb s w =
             ((case tournament_page E n0 limit k of
                 Inl e \<Rightarrow> Inl e
               | Inr d \<Rightarrow> Inr \<lparr>offset = int (Suc k) * limit, first_run = False,
                               df_all = df_append (df_all s) d, df = d\<rparr>), w')"
  using assms
  by (auto simp: tournament_body_def get_data_eq tournament_page_def tournament_request_def
        Let_def print_def sleep_def algebra_simps split: sum.splits)

lemma accumulated_Suc:
  "accumulated E n0 limit (Suc n) = df_append (accumulated E n0 limit n) (page_frame E n0 limit n)"
  by (simp add: accumulated_def)

lemma accumulated_0: "accumulated E n0 limit 0 = DataFrame_empty"
  by (simp add: accumulated_def)

lemma fetched_rows_nonempty:
  "fetched rp = Inr f \<Longrightarrow> c \<in> set (columns f) \<Longrightarrow> rows f \<noteq> []"
  by (auto simp: fetched_def DataFrame_empty_def json_normalize_def
        split: reply.splits if_splits option.splits)

lemma tournament_page_Inr:
  assumes "tournament_page E n0 limit k = Inr d"
  shows "''StartDate'' \<in> set (columns d)" and "rows d \<noteq> []"
    and "\<forall>r\<in>set (rows d). is_date (cell r ''StartDate'')"
proof -
  from assms obtain f where f: "fetched (server E (n0 + k) (tournament_request E (int k * limit))) = Inr f"
    and p: "process_tournaments E f = Inr d"
    by (auto simp: tournament_page_def split: sum.splits)
  note P = process_tournaments_Inr [OF p]
  from P(1,2) show c: "''StartDate'' \<in> set (columns d)" by simp
  from P(1) have "''StartDate'' \<in> set (columns f)" by simp
  from fetched_rows_nonempty [OF f this] P(3) show "rows d \<noteq> []" by simp
  from P(3) show "\<forall>r\<in>set (rows d). is_date (cell r ''StartDate'')"
    by (auto simp: float_cell_def date_cell_def is_date_def)
qed

lemma dates_of_column:
  "\<forall>r\<in>set rs. is_date (cell r c) \<Longrightarrow>
   dates_of (map (\<lambda>r. cell r c) rs) =
     Some (List.map_filter (\<lambda>r. case cell r c of VDate x \<Rightarrow> Some x | _ \<Rightarrow> None) rs)"
proof (induction rs)
  case Nil
  then show ?case by (simp add: map_filter_simps)
next
  case (Cons r rs)
  then show ?case by (cases "cell r c") (simp_all add: is_date_def map_filter_simps)
qed

lemma StartDates_length:
  "\<forall>r\<in>set (rows d). is_date (cell r ''StartDate'') \<Longrightarrow> length (StartDates d) = length (rows d)"
  unfolding StartDates_def
  by (induction "rows d" arbitrary: d) (auto simp: map_filter_def is_date_def split: val.splits)

lemma StartDate_min_dates:
  assumes "''StartDate'' \<in> set (columns d)" and "rows d \<noteq> []"
    and "\<forall>r\<in>set (rows d). is_date (cell r ''StartDate'')"
  shows "StartDate_min d = Inr (VDate (Min (set (StartDates d))))"
proof -
  have ds: "dates_of (map (\<lambda>r. cell r ''StartDate'') (rows d)) = Some (StartDates d)"
    unfolding StartDates_def by (rule dates_of_column [OF assms(3)])
  from StartDates_length [OF assms(3)] assms(2) obtain x xs where xs: "StartDates d = x # xs"
    by (cases "StartDates d") auto
  have "fold min xs x = Min (set (x # xs))" by (simp only: Min.set_eq_fold)
  with ds xs assms(1) show ?thesis by (simp add: StartDate_min_def getattr_def)
qed

lemma accumulated_invariant:
  assumes "pages_ok E n0 limit n" and "0 < n"
  shows "''StartDate'' \<in> set (columns (accumulated E n0 limit n)) \<and>
         rows (accumulated E n0 limit n) \<noteq> [] \<and>
         (\<forall>r\<in>set (rows (accumulated E n0 limit n)). is_date (cell r ''StartDate''))"
  using assms
proof (induction n)
  case 0
  then show ?case by simp
next
  case (Suc n)
  from Suc.prems(1) have "\<not> isl (tournament_page E n0 limit n)" by (simp add: pages_ok_def)
  then obtain d where d: "tournament_page E n0 limit n = Inr d"
    by (cases "tournament_page E n0 limit n") auto
  then have pf: "page_frame E n0 limit n = d" by (simp add: page_frame_def)
  note D = tournament_page_Inr [OF d]
  from Suc.prems(1) have ok: "pages_ok E n0 limit n" by (simp add: pages_ok_def)
  show ?case
  proof (cases n)
    case 0
    with D pf show ?thesis
      by (simp add: accumulated_Suc accumulated_0 df_append_def DataFrame_empty_def)
  next
    case (Suc j)
    with Suc.IH ok have "''StartDate'' \<in> set (columns (accumulated E n0 limit n)) \<and>
         rows (accumulated E n0 limit n) \<noteq> [] \<and>
         (\<forall>r\<in>set (rows (accumulated E n0 limit n)). is_date (cell r ''StartDate''))"
      by simp
    with D pf show ?thesis
      by (auto simp: accumulated_Suc df_append_def)
  qed
qed

lemma tournament_test_after:
  assumes "pages_ok E n0 limit n"
  shows "tournament_test until limit (locals_after E n0 limit n) =
           Inr (\<not> stops_after E n0 until limit n)"
proof (cases "n = 0")
  case True
  then show ?thesis by (simp add: tournament_test_def locals_after_def stops_after_def)
next
  case False
  then have n: "0 < n" by simp
  from accumulated_invariant [OF assms n]
  have "StartDate_min (accumulated E n0 limit n) =
          Inr (VDate (Min (set (StartDates (accumulated E n0 limit n)))))"
    by (intro StartDate_min_dates) auto
  with n show ?thesis
    by (auto simp: tournament_test_def locals_after_def stops_after_def gt_date_def)
qed

lemma tournament_step_stop:
  assumes "pages_ok E n0 limit n" and "stops_after E n0 until limit n"
  shows "tournament_step E until limit vb (locals_after E n0 limit n, w) =
           Inl (Inr (accumulated E n0 limit n), w)"
  using tournament_test_after [OF assms(1), of until] assms(2)
  by (simp add: tournament_step_def locals_after_def)

lemma tournament_step_continue:
  assumes "pages_ok E n0 limit n" and "\<not> stops_after E n0 until limit n"
    and "length (exchanges w) = n0 + n"
  shows "\<exists>w'. length (exchanges w') = n0 + Suc n \<and> files w' = files w \<and>
           tournament_step E until limit vb (locals_after E n0 limit n, w) =
             (case tournament_page E n0 limit n of
                Inl e \<Rightarrow> Inl (Inl e, w')
              | Inr d \<Rightarrow> Inr (locals_after E n0 limit (Suc n), w'))"
proof -
  have off: "offset (locals_after E n0 limit n) = int n * limit" by (simp add: locals_after_def)
  from tournament_body_eq [OF assms(3) off, of E vb] obtain w' where
    w': "length (exchanges w') = Suc (n0 + n)" "files w' = files w"
    and body: "tournament_body E limit vb (locals_after E n0 limit n) w =
             ((case tournament_page E n0 limit n of
                 Inl e \<Rightarrow> Inl e
               | Inr d \<Rightarrow> Inr \<lparr>offset = int (Suc n) * limit, first_run = False,
                               df_all = df_append (df_all (locals_after E n0 limit n)) d, df = d\<rparr>), w')"
    by blast
  have "tournament_step E until limit vb (locals_after E n0 limit n, w) =
             (case tournament_page E n0 limit n of
                Inl e \<Rightarrow> Inl (Inl e, w')
              | Inr d \<Rightarrow> Inr (locals_after E n0 limit (Suc n), w'))"
    using tournament_test_after [OF assms(1), of until] assms(2) body
    by (auto simp: tournament_step_def locals_after_def accumulated_Suc page_frame_def
          split: sum.splits)
  with w' show ?thesis by auto
qed

lemma iterate_tournament_D:
  assumes "length (exchanges w0) = n0"
  shows "iterate_steps n (tournament_step E until limit vb) (locals_after E n0 limit 0, w0) = Some (s, w')
         \<Longrightarrow> continues_through E n0 until limit n \<and> s = locals_after E n0 limit n \<and>
             length (exchanges w') = n0 + n \<and> files w' = files w0"
proof (induction n arbitrary: s w')
  case 0
  then show ?case using assms by (simp add: continues_through_def pages_ok_def)
next
  case (Suc n)
  from Suc.prems [unfolded iterate_steps_Suc_last] obtain s1 w1 where
    it: "iterate_steps n (tournament_step E until limit vb) (locals_after E n0 limit 0, w0) = Some (s1, w1)"
    and st: "tournament_step E until limit vb (s1, w1) = Inr (s, w')"
    by (auto split: option.splits sum.splits)
  from Suc.IH [OF it] have ih: "continues_through E n0 until limit n" "s1 = locals_after E n0 limit n"
    "length (exchanges w1) = n0 + n" "files w1 = files w0" by auto
  then have ok: "pages_ok E n0 limit n" by (simp add: continues_through_def)
  have ns: "\<not> stops_after E n0 until limit n"
  proof
    assume "stops_after E n0 until limit n"
    from tournament_step_stop [OF ok this] st ih(2) show False by simp
  qed
  from tournament_step_continue [OF ok ns ih(3), of vb] obtain w2 where
    w2: "length (exchanges w2) = n0 + Suc n" "files w2 = files w1"
    and eq: "tournament_step E until limit vb (locals_after E n0 limit n, w1) =
             (case tournament_page E n0 limit n of
                Inl e \<Rightarrow> Inl (Inl e, w2)
              | Inr d \<Rightarrow> Inr (locals_after E n0 limit (Suc n), w2))"
    by blast
  from eq st ih(2) obtain d where d: "tournament_page E n0 limit n = Inr d"
    and r: "s = locals_after E n0 limit (Suc n)" "w' = w2"
    by (cases "tournament_page E n0 limit n") auto
  from d ok have "pages_ok E n0 limit (Suc n)" by (auto simp: pages_ok_def less_Suc_eq)
  with ih(1) ns have "continues_through E n0 until limit (Suc n)"
    by (auto simp: continues_through_def less_Suc_eq)
  with r w2 ih(4) show ?case by simp
qed

lemma iterate_tournament_I:
  assumes "length (exchanges w0) = n0"
  shows "continues_through E n0 until limit n \<Longrightarrow>
         \<exists>w'. iterate_steps n (tournament_step E until limit vb) (locals_after E n0 limit 0, w0)
                = Some (locals_after E n0 limit n, w') \<and>
              length (exchanges w') = n0 + n \<and> files w' = files w0"
proof (induction n)
  case 0
  then show ?case using assms by simp
next
  case (Suc n)
  from Suc.prems have c: "continues_through E n0 until limit n"
    and ok: "pages_ok E n0 limit n" and ns: "\<not> stops_after E n0 until limit n"
    and pn: "\<not> isl (tournament_page E n0 limit n)"
    by (auto simp: continues_through_def pages_ok_def)
  from Suc.IH [OF c] obtain w1 where
    it: "iterate_steps n (tournament_step E until limit vb) (locals_after E n0 limit 0, w0)
           = Some (locals_after E n0 limit n, w1)"
    and w1: "length (exchanges w1) = n0 + n" "files w1 = files w0" by blast
  from tournament_step_continue [OF ok ns w1(1), of vb] obtain w2 where
    w2: "length (exchanges w2) = n0 + Suc n" "files w2 = files w1"
    and eq: "tournament_step E until limit vb (locals_after E n0 limit n, w1) =
             (case tournament_page E n0 limit n of
                Inl e \<Rightarrow> Inl (Inl e, w2)
              | Inr d \<Rightarrow> Inr (locals_after E n0 limit (Suc n), w2))"
    by blast
  from pn obtain d where "tournament_page E n0 limit n = Inr d"
    by (cases "tournament_page E n0 limit n") auto
  with eq have "tournament_step E until limit vb (locals_after E n0 limit n, w1) =
      Inr (locals_after E n0 limit (Suc n), w2)" by simp
  with it have "iterate_steps (Suc n) (tournament_step E until limit vb) (locals_after E n0 limit 0, w0)
                = Some (locals_after E n0 limit (Suc n), w2)"
    unfolding iterate_steps_Suc_last by simp
  with w2 w1 show ?case by auto
qed

lemma locals_after_0:
  "locals_after E n0 limit 0 =
     \<lparr>offset = 0, first_run = True, df_all = DataFrame_empty, df = DataFrame_empty\<rparr>"
  by (simp add: locals_after_def accumulated_0)

lemma get_tournament_data_loop:
  "get_tournament_data E until limit vb w =
     while_loop (tournament_step E until limit vb)
       (locals_after E (length (exchanges w)) limit 0, print [S ''Getting tournament data''] w)"
  by (simp add: get_tournament_data_def locals_after_0)

lemma get_tournament_data_cases:
  assumes "get_tournament_data E until limit vb w = Some (r, w')"
  shows "\<exists>m. continues_through E (length (exchanges w)) until limit m \<and> files w' = files w \<and>
           (if stops_after E (length (exchanges w)) until limit m
            then r = Inr (accumulated E (length (exchanges w)) limit m) \<and>
                 length (exchanges w') = length (exchanges w) + m
            else tournament_page E (length (exchanges w)) limit m = r \<and> isl r \<and>
                 length (exchanges w') = length (exchanges w) + Suc m)"
proof -
  define n0 where "n0 = length (exchanges w)"
  define w0 where "w0 = print [S ''Getting tournament data''] w"
  have w0: "length (exchanges w0) = n0" "files w0 = files w"
    by (simp_all add: w0_def n0_def print_def)
  from assms have "while_loop (tournament_step E until limit vb) (locals_after E n0 limit 0, w0) = Some (r, w')"
    by (simp add: get_tournament_data_loop n0_def w0_def)
  from while_loop_SomeD [OF this] obtain m s w1 where
    it: "iterate_steps m (tournament_step E until limit vb) (locals_after E n0 limit 0, w0) = Some (s, w1)"
    and st: "tournament_step E until limit vb (s, w1) = Inl (r, w')"
    by auto
  from iterate_tournament_D [OF w0(1) it]
  have c: "continues_through E n0 until limit m" and s: "s = locals_after E n0 limit m"
    and w1: "length (exchanges w1) = n0 + m" "files w1 = files w0" by auto
  from c have ok: "pages_ok E n0 limit m" by (simp add: continues_through_def)
  have "files w' = files w \<and>
           (if stops_after E n0 until limit m
            then r = Inr (accumulated E n0 limit m) \<and> length (exchanges w') = n0 + m
            else tournament_page E n0 limit m = r \<and> isl r \<and>
                 length (exchanges w') = n0 + Suc m)"
  proof (cases "stops_after E n0 until limit m")
    case True
    from tournament_step_stop [OF ok True, of vb w1] st s w1 w0 True show ?thesis by simp
  next
    case False
    from tournament_step_continue [OF ok False w1(1), of vb] obtain w2 where
      w2: "length (exchanges w2) = n0 + Suc m" "files w2 = files w1"
      and eq: "tournament_step E until limit vb (locals_after E n0 limit m, w1) =
             (case tournament_page E n0 limit m of
                Inl e \<Rightarrow> Inl (Inl e, w2)
              | Inr d \<Rightarrow> Inr (locals_after E n0 limit (Suc m), w2))"
      by blast
    show ?thesis
    proof (cases "tournament_page E n0 limit m")
      case (Inl e)
      with eq st s have "r = Inl e" "w' = w2" by auto
      with Inl False w2 w1 w0 show ?thesis by simp
    next
      case (Inr d)
      with eq st s show ?thesis by simp
    qed
  qed
  with c show ?thesis unfolding n0_def by blast
qed

lemma get_tournament_data_stop:
  assumes "continues_through E (length (exchanges w)) until limit m"
    and "stops_after E (length (exchanges w)) until limit m"
  shows "\<exists>w'. get_tournament_data E until limit vb w =
                Some (Inr (accumulated E (length (exchanges w)) limit m), w') \<and>
              length (exchanges w') = length (exchanges w) + m \<and> files w' = files w"
proof -
  define n0 where "n0 = length (exchanges w)"
  define w0 where "w0 = print [S ''Getting tournament data''] w"
  have w0: "length (exchanges w0) = n0" "files w0 = files w"
    by (simp_all add: w0_def n0_def print_def)
  from assms have c: "continues_through E n0 until limit m" and st: "stops_after E n0 until limit m"
    by (simp_all add: n0_def)
  from c have ok: "pages_ok E n0 limit m" by (simp add: continues_through_def)
  from iterate_tournament_I [OF w0(1) c, of vb] obtain w1 where
    it: "iterate_steps m (tournament_step E until limit vb) (locals_after E n0 limit 0, w0)
                = Some (locals_after E n0 limit m, w1)"
    and w1: "length (exchanges w1) = n0 + m" "files w1 = files w0" by blast
  from while_loop_SomeI [OF it tournament_step_stop [OF ok st]]
  have "get_tournament_data E until limit vb w = Some (Inr (accumulated E n0 limit m), w1)"
    by (simp add: get_tournament_data_loop n0_def w0_def)
  with w1 w0 show ?thesis unfolding n0_def by auto
qed

lemma get_tournament_data_fault:
  assumes "continues_through E (length (exchanges w)) until limit m"
    and "\<not> stops_after E (length (exchanges w)) until limit m"
    and "tournament_page E (length (exchanges w)) limit m = Inl e"
  shows "\<exists>w'. get_tournament_data E until limit vb w = Some (Inl e, w') \<and>
              length (exchanges w') = length (exchanges w) + Suc m \<and> files w' = files w"
proof -
  define n0 where "n0 = length (exchanges w)"
  define w0 where "w0 = print [S ''Getting tournament data''] w"
  have w0: "length (exchanges w0) = n0" "files w0 = files w"
    by (simp_all add: w0_def n0_def print_def)
  from assms have c: "continues_through E n0 until limit m" and st: "\<not> stops_after E n0 until limit m"
    and pg: "tournament_page E n0 limit m = Inl e"
    by (simp_all add: n0_def)
  from c have ok: "pages_ok E n0 limit m" by (simp add: continues_through_def)
  from iterate_tournament_I [OF w0(1) c, of vb] obtain w1 where
    it: "iterate_steps m (tournament_step E until limit vb) (locals_after E n0 limit 0, w0)
                = Some (locals_after E n0 limit m, w1)"
    and w1: "length (exchanges w1) = n0 + m" "files w1 = files w0" by blast
  from tournament_step_continue [OF ok st w1(1), of vb] pg obtain w2 where
    w2: "length (exchanges w2) = n0 + Suc m" "files w2 = files w1"
    and eq: "tournament_step E until limit vb (locals_after E n0 limit m, w1) = Inl (Inl e, w2)"
    by auto
  from while_loop_SomeI [OF it eq]
  have "get_tournament_data E until limit vb w = Some (Inl e, w2)"
    by (simp add: get_tournament_data_loop n0_def w0_def)
  with w2 w1 w0 show ?thesis unfolding n0_def by auto
qed

text \<open>
  Claim C1. The run of \<^verbatim>\<open>get_tournament_data\<close> returns its accumulator after exactly \<open>n\<close>
  fetches if and only if all \<open>n\<close> pages were fetched and post-processed without a fault, the
  stop condition holds after the \<open>n\<close>-th fetch (at least one fetch was made, the page just
  fetched has at least \<open>limit\<close> rows and the least StartDate of all accumulated rows is at
  most the cutoff) and held after no earlier fetch. The test is made after every completed
  fetch, the first one included; only the test before the first fetch is bypassed by
  \<^verbatim>\<open>first_run\<close>. The frame returned is the concatenation of the fetched pages, and every
  run that ends, with a table or with a fault, has made at least one fetch.
\<close>

theorem get_tournament_data_terminates_exactly:
  "((\<exists>d w'. get_tournament_data E until limit vb w = Some (Inr d, w') \<and>
            length (exchanges w') = length (exchanges w) + n)
    \<longleftrightarrow> pages_ok E (length (exchanges w)) limit n \<and>
        stops_after E (length (exchanges w)) until limit n \<and>
        (\<forall>k<n. \<not> stops_after E (length (exchanges w)) until limit k)) \<and>
   (\<forall>d w'. get_tournament_data E until limit vb w = Some (Inr d, w') \<longrightarrow>
      d = accumulated E (length (exchanges w)) limit
            (length (exchanges w') - length (exchanges w))) \<and>
   (\<forall>r w'. get_tournament_data E until limit vb w = Some (r, w') \<longrightarrow>
      length (exchanges w) < length (exchanges w'))"
proof -
  let ?n0 = "length (exchanges w)"
  have a: "pages_ok E ?n0 limit n \<and> stops_after E ?n0 until limit n \<and>
        (\<forall>k<n. \<not> stops_after E ?n0 until limit k)"
    if "\<exists>d w'. get_tournament_data E until limit vb w = Some (Inr d, w') \<and>
            length (exchanges w') = ?n0 + n"
  proof -
    from that obtain d w' where r: "get_tournament_data E until limit vb w = Some (Inr d, w')"
      and len: "length (exchanges w') = ?n0 + n" by blast
    from get_tournament_data_cases [OF r] len
    have "continues_through E ?n0 until limit n \<and> stops_after E ?n0 until limit n"
      by (auto split: if_splits)
    then show ?thesis by (simp add: continues_through_def)
  qed
  have b: "\<exists>d w'. get_tournament_data E until limit vb w = Some (Inr d, w') \<and>
            length (exchanges w') = ?n0 + n"
    if "pages_ok E ?n0 limit n \<and> stops_after E ?n0 until limit n \<and>
        (\<forall>k<n. \<not> stops_after E ?n0 until limit k)"
  proof -
    from that have "continues_through E ?n0 until limit n" and "stops_after E ?n0 until limit n"
      by (simp_all add: continues_through_def)
    from get_tournament_data_stop [OF this, of vb] show ?thesis by blast
  qed
  have c: "d = accumulated E ?n0 limit (length (exchanges w') - ?n0)"
    if "get_tournament_data E until limit vb w = Some (Inr d, w')" for d w'
    using get_tournament_data_cases [OF that] by (auto split: if_splits)
  have d: "?n0 < length (exchanges w')"
    if "get_tournament_data E until limit vb w = Some (r, w')" for r w'
    using get_tournament_data_cases [OF that] by (auto simp: stops_after_def split: if_splits)
  from a b c d show ?thesis by blast
qed

lemma process_tournaments_total:
  assumes "{''StartDate'', ''EndDate'', ''TotalUSDPrize''} \<subseteq> set (columns d)"
    and "\<forall>r\<in>set (rows d). to_date E (cell r ''StartDate'') \<noteq> None \<and>
            to_date E (cell r ''EndDate'') \<noteq> None \<and>
            astype_float E (cell r ''TotalUSDPrize'') \<noteq> None"
  shows "process_tournaments E d =
           Inr (d\<lparr>rows := map (\<lambda>r. float_cell E ''TotalUSDPrize''
                        (date_cell E ''EndDate'' (date_cell E ''StartDate'' r))) (rows d)\<rparr>)"
proof -
  let ?d1 = "d\<lparr>rows := map (date_cell E ''StartDate'') (rows d)\<rparr>"
  let ?d2 = "d\<lparr>rows := map (\<lambda>r. date_cell E ''EndDate'' (date_cell E ''StartDate'' r)) (rows d)\<rparr>"
  have s1: "convert_cells (to_date E) (map (\<lambda>r. cell r ''StartDate'') (rows d)) =
              Inr (map (\<lambda>v. the (to_date E v)) (map (\<lambda>r. cell r ''StartDate'') (rows d)))"
    using assms(2) by (intro convert_cells_total) auto
  have u1: "setitem_series d ''StartDate''
              (map VDate (map (\<lambda>v. the (to_date E v)) (map (\<lambda>r. cell r ''StartDate'') (rows d)))) = ?d1"
    using setitem_series_map [of "''StartDate''" d "\<lambda>v. VDate (the (to_date E v))"] assms(1)
    by (simp add: date_cell_def o_def)
  have s2: "convert_cells (to_date E) (map (\<lambda>r. cell r ''EndDate'') (rows ?d1)) =
              Inr (map (\<lambda>v. the (to_date E v)) (map (\<lambda>r. cell r ''EndDate'') (rows ?d1)))"
    using assms(2) by (intro convert_cells_total) (auto simp: date_cell_def)
  have u2: "setitem_series ?d1 ''EndDate''
              (map VDate (map (\<lambda>v. the (to_date E v)) (map (\<lambda>r. cell r ''EndDate'') (rows ?d1)))) = ?d2"
    using setitem_series_map [of "''EndDate''" ?d1 "\<lambda>v. VDate (the (to_date E v))"] assms(1)
    by (simp add: date_cell_def o_def)
  have g1: "getitem d ''StartDate'' = Inr (map (\<lambda>r. cell r ''StartDate'') (rows d))"
    using assms(1) by (simp add: getitem_def)
  have "''EndDate'' \<in> set (columns ?d1)" using assms(1) by simp
  then have g2: "getitem ?d1 ''EndDate'' = Inr (map (\<lambda>r. cell r ''EndDate'') (rows ?d1))"
    by (simp only: getitem_def if_True)
  have c: "convert_date_columns E [''StartDate'', ''EndDate''] d = Inr ?d2"
    by (simp only: convert_date_columns.simps g1 sum.case s1 u1 g2 s2 u2)
  have "''TotalUSDPrize'' \<in> set (columns ?d2)" using assms(1) by simp
  then have g3: "getitem ?d2 ''TotalUSDPrize'' = Inr (map (\<lambda>r. cell r ''TotalUSDPrize'') (rows ?d2))"
    by (simp only: getitem_def if_True)
  have s3: "convert_cells (astype_float E) (map (\<lambda>r. cell r ''TotalUSDPrize'') (rows ?d2)) =
              Inr (map (\<lambda>v. the (astype_float E v)) (map (\<lambda>r. cell r ''TotalUSDPrize'') (rows ?d2)))"
    using assms(2) by (intro convert_cells_total) (auto simp: date_cell_def)
  have u3: "setitem_series ?d2 ''TotalUSDPrize''
              (map VFloat (map (\<lambda>v. the (astype_float E v))
                 (map (\<lambda>r. cell r ''TotalUSDPrize'') (rows ?d2)))) =
            d\<lparr>rows := map (\<lambda>r. float_cell E ''TotalUSDPrize''
                        (date_cell E ''EndDate'' (date_cell E ''StartDate'' r))) (rows d)\<rparr>"
    using setitem_series_map [of "''TotalUSDPrize''" ?d2 "\<lambda>v. VFloat (the (astype_float E v))"] assms(1)
    by (simp add: float_cell_def o_def)
  show ?thesis
    by (simp only: process_tournaments_def c sum.case g3 s3 u3)
qed

text \<open>
  Two full pages of two rows each, cutoff 2023-01-01: the first page is too recent, the second
  reaches the cutoff, and the run returns after exactly two fetches.
\<close>

lemma scenario_small_pages:
  "\<not> isl (tournament_page (scenario_env 2 2) 0 2 0)"
  "\<not> isl (tournament_page (scenario_env 2 2) 0 2 (Suc 0))"
  "\<not> stops_after (scenario_env 2 2) 0 (2023, 1, 1) 2 0"
  "\<not> stops_after (scenario_env 2 2) 0 (2023, 1, 1) 2 (Suc 0)"
  "stops_after (scenario_env 2 2) 0 (2023, 1, 1) 2 2"
  by code_simp+

theorem get_tournament_data_terminates_exactly_witness:
  "pages_ok (scenario_env 2 2) 0 2 2 \<and>
   stops_after (scenario_env 2 2) 0 (2023, 1, 1) 2 2 \<and>
   \<not> stops_after (scenario_env 2 2) 0 (2023, 1, 1) 2 0 \<and>
   \<not> stops_after (scenario_env 2 2) 0 (2023, 1, 1) 2 1 \<and>
   (\<exists>d w'. get_tournament_data (scenario_env 2 2) (2023, 1, 1) 2 False start_world = Some (Inr d, w') \<and>
      length (exchanges w') = 2)"
proof -
  have e: "length (exchanges start_world) = 0" by (simp add: start_world_def)
  have h: "pages_ok (scenario_env 2 2) 0 2 2 \<and>
     stops_after (scenario_env 2 2) 0 (2023, 1, 1) 2 2 \<and>
     (\<forall>k<2. \<not> stops_after (scenario_env 2 2) 0 (2023, 1, 1) 2 k)"
    using scenario_small_pages by (simp add: pages_ok_def numeral_2_eq_2 less_Suc_eq)
  have "pages_ok (scenario_env 2 2) (length (exchanges start_world)) 2 2 \<and>
     stops_after (scenario_env 2 2) (length (exchanges start_world)) (2023, 1, 1) 2 2 \<and>
     (\<forall>k<2. \<not> stops_after (scenario_env 2 2) (length (exchanges start_world)) (2023, 1, 1) 2 k)"
    unfolding e by (rule h)
  with get_tournament_data_terminates_exactly
         [of "scenario_env 2 2" "(2023, 1, 1)" 2 False start_world 2]
  have "\<exists>d w'. get_tournament_data (scenario_env 2 2) (2023, 1, 1) 2 False start_world =
           Some (Inr d, w') \<and>
         length (exchanges w') = length (exchanges start_world) + 2"
    by blast
  then have "\<exists>d w'. get_tournament_data (scenario_env 2 2) (2023, 1, 1) 2 False start_world =
           Some (Inr d, w') \<and> length (exchanges w') = 2"
    by (simp only: e add_0)
  moreover have "\<not> stops_after (scenario_env 2 2) 0 (2023, 1, 1) 2 0"
    "\<not> stops_after (scenario_env 2 2) 0 (2023, 1, 1) 2 1"
    using scenario_small_pages by simp_all
  ultimately show ?thesis using h by blast
qed

text \<open>
  Claim C6. Whenever the server answers with a status other than 200, or with status 200 and
  an empty body, \<^verbatim>\<open>get_data\<close> raises nothing and returns the empty frame; the exchange is
  recorded, and exactly in the non-200 case the line \<^verbatim>\<open>Error: <status>\<close> is printed. The
  returned value is the same frame in both cases, so it does not tell a failed request from an
  empty result.
\<close>

theorem get_data_degrades_silently:
  assumes "server E (length (exchanges w)) \<lparr>url = u, params = ps\<rparr> = Response code txt js"
    and "code \<noteq> 200 \<or> txt = []"
  shows "get_data E u ps w =
           (Inr DataFrame_empty,
            w\<lparr>exchanges := exchanges w @ [(\<lparr>url = u, params = ps\<rparr>, Response code txt js)],
              stdout := stdout w @ (if code = 200 then [] else [[S ''Error: '', I code]])\<rparr>)"
  using assms by (auto simp: get_data_def Let_def print_def)

theorem get_data_degrades_silently_witness:
  "server (failing_env 500) (length (exchanges start_world))
      \<lparr>url = base_url @ game_by_id, params = games_params (failing_env 500) (VInt 7)\<rparr>
     = Response 500 ''Internal Server Error'' None \<and>
   (500::int) \<noteq> 200 \<and>
   get_data (failing_env 500) (base_url @ game_by_id) (games_params (failing_env 500) (VInt 7))
       start_world =
     (Inr DataFrame_empty,
      start_world\<lparr>exchanges := exchanges start_world @
          [(\<lparr>url = base_url @ game_by_id, params = games_params (failing_env 500) (VInt 7)\<rparr>,
            Response 500 ''Internal Server Error'' None)],
        stdout := stdout start_world @ [[S ''Error: '', I 500]]\<rparr>) \<and>
   server empty_body_env (length (exchanges start_world))
      \<lparr>url = base_url @ game_by_id, params = games_params empty_body_env (VInt 7)\<rparr>
     = Response 200 [] None \<and>
   get_data empty_body_env (base_url @ game_by_id) (games_params empty_body_env (VInt 7))
       start_world =
     (Inr DataFrame_empty,
      start_world\<lparr>exchanges := exchanges start_world @
          [(\<lparr>url = base_url @ game_by_id, params = games_params empty_body_env (VInt 7)\<rparr>,
            Response 200 [] None)],
        stdout := stdout start_world @ []\<rparr>)"
proof -
  have a: "server (failing_env 500) (length (exchanges start_world))
      \<lparr>url = base_url @ game_by_id, params = games_params (failing_env 500) (VInt 7)\<rparr>
     = Response 500 ''Internal Server Error'' None"
    by (simp add: failing_env_def failing_server_def)
  have b: "(500::int) \<noteq> 200 \<or> ''Internal Server Error'' = []" by simp
  have c: "server empty_body_env (length (exchanges start_world))
      \<lparr>url = base_url @ game_by_id, params = games_params empty_body_env (VInt 7)\<rparr>
     = Response 200 [] None"
    by (simp add: empty_body_env_def empty_body_server_def)
  have d: "(200::int) \<noteq> 200 \<or> ([]::string) = []" by simp
  from get_data_degrades_silently [OF a b] get_data_degrades_silently [OF c d] a c
  show ?thesis by simp
qed

text \<open>
  Claim C8. When \<^verbatim>\<open>process_tournaments\<close> returns, it keeps the rows in place, and every row
  whose TotalUSDPrize was a string holds in that column the float that \<^verbatim>\<open>astype(float)\<close>
  assigns to the string (so the string was a numeric one).
\<close>

theorem process_tournaments_prize_float:
  assumes "process_tournaments E d = Inr d'"
    and "i < length (rows d)"
    and "cell (rows d ! i) ''TotalUSDPrize'' = VStr s"
  shows "\<exists>f. astype_float E (VStr s) = Some f \<and> length (rows d') = length (rows d) \<and>
             cell (rows d' ! i) ''TotalUSDPrize'' = VFloat f"
proof -
  note P = process_tournaments_Inr [OF assms(1)]
  from assms(2) have r: "rows d ! i \<in> set (rows d)" by simp
  with P(4) assms(3) obtain f where f: "astype_float E (VStr s) = Some f" by fastforce
  from P(3) assms(2,3) f
  have "cell (rows d' ! i) ''TotalUSDPrize'' = VFloat f"
    by (simp add: float_cell_def date_cell_def)
  with f P(3) show ?thesis by simp
qed

theorem process_tournaments_prize_float_witness:
  "process_tournaments (scenario_env 2 2) (json_normalize [example_row ''2023-06-01'']) =
     Inr \<lparr>columns = [''TournamentId'', ''GameId'', ''StartDate'', ''EndDate'', ''TotalUSDPrize'',
                     ''Teamplay''],
          rows = [[(''TournamentId'', VInt 1), (''GameId'', VInt 151), (''StartDate'', VDate (2023, 6, 1)),
                   (''EndDate'', VDate (2023, 6, 1)), (''TotalUSDPrize'', VFloat (2469 / 2)),
                   (''Teamplay'', VInt 0)]]\<rparr> \<and>
   (0::nat) < length (rows (json_normalize [example_row ''2023-06-01''])) \<and>
   cell (rows (json_normalize [example_row ''2023-06-01'']) ! 0) ''TotalUSDPrize'' = VStr ''1234.50'' \<and>
   astype_float (scenario_env 2 2) (VStr ''1234.50'') = Some (2469 / 2) \<and>
   (\<exists>f. astype_float (scenario_env 2 2) (VStr ''1234.50'') = Some f \<and>
      length (rows \<lparr>columns = [''TournamentId'', ''GameId'', ''StartDate'', ''EndDate'',
                       ''TotalUSDPrize'', ''Teamplay''],
          rows = [[(''TournamentId'', VInt 1), (''GameId'', VInt 151), (''StartDate'', VDate (2023, 6, 1)),
                   (''EndDate'', VDate (2023, 6, 1)), (''TotalUSDPrize'', VFloat (2469 / 2)),
                   (''Teamplay'', VInt 0)]]\<rparr>) =
        length (rows (json_normalize [example_row ''2023-06-01''])) \<and>
      cell (rows \<lparr>columns = [''TournamentId'', ''GameId'', ''StartDate'', ''EndDate'',
                       ''TotalUSDPrize'', ''Teamplay''],
          rows = [[(''TournamentId'', VInt 1), (''GameId'', VInt 151), (''StartDate'', VDate (2023, 6, 1)),
                   (''EndDate'', VDate (2023, 6, 1)), (''TotalUSDPrize'', VFloat (2469 / 2)),
                   (''Teamplay'', VInt 0)]]\<rparr> ! 0) ''TotalUSDPrize'' = VFloat f)"
proof -
  have a: "process_tournaments (scenario_env 2 2) (json_normalize [example_row ''2023-06-01'']) =
     Inr \<lparr>columns = [''TournamentId'', ''GameId'', ''StartDate'', ''EndDate'', ''TotalUSDPrize'',
                     ''Teamplay''],
          rows = [[(''TournamentId'', VInt 1), (''GameId'', VInt 151), (''StartDate'', VDate (2023, 6, 1)),
                   (''EndDate'', VDate (2023, 6, 1)), (''TotalUSDPrize'', VFloat (2469 / 2)),
                   (''Teamplay'', VInt 0)]]\<rparr>"
    by code_simp
  have b: "(0::nat) < length (rows (json_normalize [example_row ''2023-06-01'']))"
    by (simp add: json_normalize_def)
  have c: "cell (rows (json_normalize [example_row ''2023-06-01'']) ! 0) ''TotalUSDPrize'' = VStr ''1234.50''"
    by (simp add: json_normalize_def example_row_def cell_def)
  have d: "astype_float (scenario_env 2 2) (VStr ''1234.50'') = Some (2469 / 2)"
    by (simp add: scenario_env_def example_astype_float_def)
  from process_tournaments_prize_float [OF a b c] a b c d show ?thesis by blast
qed

lemma cell_filter_labels:
  "cell (filter (\<lambda>(c, v). c \<notin> set labels) r) c' = (if c' \<in> set labels then VNull else cell r c')"
proof (induction r)
  case Nil
  then show ?case by (simp add: cell_def)
next
  case (Cons kv r)
  then show ?case by (cases kv) (auto simp: cell_def)
qed

lemma drop_columns_Inr:
  assumes "drop_columns d labels = Inr d'"
  shows "set labels \<subseteq> set (columns d)"
    and "columns d' = filter (\<lambda>c. c \<notin> set labels) (columns d)"
    and "length (rows d') = length (rows d)"
    and "\<And>i c. i < length (rows d) \<Longrightarrow>
           cell (rows d' ! i) c = (if c \<in> set labels then VNull else cell (rows d ! i) c)"
proof -
  from assms have e: "filter (\<lambda>l. l \<notin> set (columns d)) labels = []"
    and d': "d' = \<lparr>columns = filter (\<lambda>c. c \<notin> set labels) (columns d),
                  rows = map (filter (\<lambda>(c, v). c \<notin> set labels)) (rows d)\<rparr>"
    by (auto simp: drop_columns_def split: list.splits)
  from e show "set labels \<subseteq> set (columns d)" by (auto simp: filter_empty_conv)
  from d' show "columns d' = filter (\<lambda>c. c \<notin> set labels) (columns d)" by simp
  from d' show "length (rows d') = length (rows d)" by simp
  fix i c assume "i < length (rows d)"
  with d' show "cell (rows d' ! i) c = (if c \<in> set labels then VNull else cell (rows d ! i) c)"
    by (simp add: cell_filter_labels)
qed

text \<open>
  Claim C9. When the final post-processing of \<^verbatim>\<open>main\<close> succeeds, the solo earnings and the
  solo tournament results had the columns NameFirst and NameLast and lose exactly these two:
  the other columns stay in order, the rows stay in place and every cell of another column
  keeps its value. The team tables, the tournaments and the games are the same frames as
  before.
\<close>

theorem final_postprocessing_frame:
  assumes "final_postprocessing t = Inr t'"
  shows "columns (df_solo_earnings t') =
           filter (\<lambda>c. c \<noteq> ''NameFirst'' \<and> c \<noteq> ''NameLast'') (columns (df_solo_earnings t)) \<and>
         {''NameFirst'', ''NameLast''} \<subseteq> set (columns (df_solo_earnings t)) \<and>
         length (rows (df_solo_earnings t')) = length (rows (df_solo_earnings t)) \<and>
         (\<forall>i<length (rows (df_solo_earnings t)). \<forall>c. c \<noteq> ''NameFirst'' \<and> c \<noteq> ''NameLast'' \<longrightarrow>
            cell (rows (df_solo_earnings t') ! i) c = cell (rows (df_solo_earnings t) ! i) c) \<and>
         columns (df_solo_tournament_earnings t') =
           filter (\<lambda>c. c \<noteq> ''NameFirst'' \<and> c \<noteq> ''NameLast'')
             (columns (df_solo_tournament_earnings t)) \<and>
         {''NameFirst'', ''NameLast''} \<subseteq> set (columns (df_solo_tournament_earnings t)) \<and>
         length (rows (df_solo_tournament_earnings t')) =
           length (rows (df_solo_tournament_earnings t)) \<and>
         (\<forall>i<length (rows (df_solo_tournament_earnings t)). \<forall>c.
            c \<noteq> ''NameFirst'' \<and> c \<noteq> ''NameLast'' \<longrightarrow>
            cell (rows (df_solo_tournament_earnings t') ! i) c =
              cell (rows (df_solo_tournament_earnings t) ! i) c) \<and>
         df_team_earnings t' = df_team_earnings t \<and>
         df_team_tournament_earnings t' = df_team_tournament_earnings t \<and>
         df_tournaments t' = df_tournaments t \<and> df_games t' = df_games t"
proof -
  from assms obtain a b where
    a: "drop_columns (df_solo_earnings t) [''NameFirst'', ''NameLast''] = Inr a"
    and b: "drop_columns (df_solo_tournament_earnings t) [''NameFirst'', ''NameLast''] = Inr b"
    and t': "t' = t\<lparr>df_solo_earnings := a, df_solo_tournament_earnings := b\<rparr>"
    by (auto simp: final_postprocessing_def split: sum.splits)
  note A = drop_columns_Inr [OF a] and B = drop_columns_Inr [OF b]
  from A B t' show ?thesis by simp
qed

theorem final_postprocessing_frame_witness:
  "final_postprocessing example_tables = Inr example_tables_stripped \<and>
   columns (df_solo_earnings example_tables_stripped) = [''PlayerId'', ''TotalUSDPrize'', ''GameId''] \<and>
   columns (df_team_earnings example_tables_stripped) = [''TeamId'', ''TeamName'', ''GameId''] \<and>
   df_team_earnings example_tables_stripped = df_team_earnings example_tables \<and>
   df_team_tournament_earnings example_tables_stripped = df_team_tournament_earnings example_tables"
proof -
  have a: "final_postprocessing example_tables = Inr example_tables_stripped"
    by code_simp
  have b: "columns (df_solo_earnings example_tables_stripped) = [''PlayerId'', ''TotalUSDPrize'', ''GameId'']"
    by (simp add: example_tables_stripped_def)
  have c: "columns (df_team_earnings example_tables_stripped) = [''TeamId'', ''TeamName'', ''GameId'']"
    by code_simp
  from final_postprocessing_frame [OF a] a b c show ?thesis by blast
qed

lemma empty_first_page:
  "tournament_page empty_body_env 0 100 0 = Inl (KeyError ''StartDate'')"
  "tournament_page (failing_env 500) 0 100 0 = Inl (KeyError ''StartDate'')"
  by code_simp+

lemma tournament_first_page_fault:
  assumes "tournament_page E (length (exchanges w)) limit 0 = Inl e"
  shows "\<exists>w'. get_tournament_data E until limit vb w = Some (Inl e, w') \<and>
              length (exchanges w') = length (exchanges w) + 1"
proof -
  have c: "continues_through E (length (exchanges w)) until limit 0"
    by (simp add: continues_through_def pages_ok_def)
  have s: "\<not> stops_after E (length (exchanges w)) until limit 0"
    by (simp add: stops_after_def)
  from get_tournament_data_fault [OF c s assms, of vb] show ?thesis by auto
qed

text \<open>
  Claim C3, evaluated on the code. With page limit 100 and a first response that is empty
  (status 200 with an empty body) or failed (status 500), \<^verbatim>\<open>get_tournament_data\<close> does not
  leave its loop through the page-size test: \<^verbatim>\<open>process_tournaments\<close> raises KeyError on the
  empty frame after the single fetch, before the test is evaluated again.
\<close>

theorem get_tournament_data_empty_first_page:
  "(\<exists>w'. get_tournament_data empty_body_env (2023, 1, 1) 100 False start_world =
           Some (Inl (KeyError ''StartDate''), w') \<and> length (exchanges w') = 1) \<and>
   (\<exists>w'. get_tournament_data (failing_env 500) (2023, 1, 1) 100 False start_world =
           Some (Inl (KeyError ''StartDate''), w') \<and> length (exchanges w') = 1)"
proof -
  have e: "length (exchanges start_world) = 0" by (simp add: start_world_def)
  from tournament_first_page_fault [of empty_body_env start_world 100 "KeyError ''StartDate''" "(2023, 1, 1)" False]
    tournament_first_page_fault [of "failing_env 500" start_world 100 "KeyError ''StartDate''" "(2023, 1, 1)" False]
    empty_first_page
  show ?thesis unfolding e by simp
qed

lemma tournament_page_well_formed:
  assumes "server E (n0 + k) (tournament_request E (int k * limit)) = Response 200 txt (Some rs)"
    and "txt \<noteq> []" and "rs \<noteq> []"
    and "\<forall>r\<in>set rs. {''StartDate'', ''EndDate'', ''TotalUSDPrize''} \<subseteq> fst ` set r \<and>
           to_date E (cell r ''StartDate'') \<noteq> None \<and> to_date E (cell r ''EndDate'') \<noteq> None \<and>
           astype_float E (cell r ''TotalUSDPrize'') \<noteq> None"
  shows "tournament_page E n0 limit k =
           Inr ((json_normalize rs)\<lparr>rows := map (\<lambda>r. float_cell E ''TotalUSDPrize''
                        (date_cell E ''EndDate'' (date_cell E ''StartDate'' r))) rs\<rparr>)"
proof -
  have f: "fetched (server E (n0 + k) (tournament_request E (int k * limit))) = Inr (json_normalize rs)"
    using assms(1,2) by (simp add: fetched_def)
  from assms(3) obtain r where r: "r \<in> set rs" by (cases rs) auto
  with assms(4) have "{''StartDate'', ''EndDate'', ''TotalUSDPrize''} \<subseteq> fst ` set r" by blast
  with r have c: "{''StartDate'', ''EndDate'', ''TotalUSDPrize''} \<subseteq> set (columns (json_normalize rs))"
    by (auto simp: json_normalize_def)
  have "process_tournaments E (json_normalize rs) =
           Inr ((json_normalize rs)\<lparr>rows := map (\<lambda>r. float_cell E ''TotalUSDPrize''
                        (date_cell E ''EndDate'' (date_cell E ''StartDate'' r)))
                   (rows (json_normalize rs))\<rparr>)"
    using assms(4) by (intro process_tournaments_total c) (simp add: json_normalize_def)
  with f show ?thesis by (simp add: tournament_page_def json_normalize_def)
qed

lemma scenario_pages:
  assumes "0 < a" and "0 < b"
  shows "tournament_page (scenario_env a b) 0 limit 0 =
           Inr ((json_normalize (replicate a (example_row ''2023-06-01'')))
                  \<lparr>rows := replicate a (processed_example_row (2023, 6, 1))\<rparr>)"
    and "tournament_page (scenario_env a b) 0 limit (Suc 0) =
           Inr ((json_normalize (replicate b (example_row ''2022-11-01'')))
                  \<lparr>rows := replicate b (processed_example_row (2022, 11, 1))\<rparr>)"
    and "tournament_page (scenario_env a b) 0 limit (Suc (Suc 0)) = Inl (KeyError ''StartDate'')"
proof -
  have s0: "server (scenario_env a b) (0 + 0) (tournament_request (scenario_env a b) (int 0 * limit)) =
          Response 200 ''[...]'' (Some (replicate a (example_row ''2023-06-01'')))"
    by (simp add: scenario_env_def scenario_server_def)
  have s1: "server (scenario_env a b) (0 + Suc 0) (tournament_request (scenario_env a b) (int (Suc 0) * limit)) =
          Response 200 ''[...]'' (Some (replicate b (example_row ''2022-11-01'')))"
    by (simp add: scenario_env_def scenario_server_def)
  have p0: "float_cell (scenario_env a b) ''TotalUSDPrize''
          (date_cell (scenario_env a b) ''EndDate''
            (date_cell (scenario_env a b) ''StartDate'' (example_row ''2023-06-01''))) =
        processed_example_row (2023, 6, 1)"
    by (simp add: float_cell_def date_cell_def scenario_env_def example_row_def cell_def
        example_to_date_def example_astype_float_def processed_example_row_def)
  have p1: "float_cell (scenario_env a b) ''TotalUSDPrize''
          (date_cell (scenario_env a b) ''EndDate''
            (date_cell (scenario_env a b) ''StartDate'' (example_row ''2022-11-01''))) =
        processed_example_row (2022, 11, 1)"
    by (simp add: float_cell_def date_cell_def scenario_env_def example_row_def cell_def
        example_to_date_def example_astype_float_def processed_example_row_def)
  show "tournament_page (scenario_env a b) 0 limit 0 =
           Inr ((json_normalize (replicate a (example_row ''2023-06-01'')))
                  \<lparr>rows := replicate a (processed_example_row (2023, 6, 1))\<rparr>)"
    using assms(1) p0
    by (subst tournament_page_well_formed [OF s0])
       (simp_all add: scenario_env_def example_row_def cell_def example_to_date_def
          example_astype_float_def map_replicate)
  show "tournament_page (scenario_env a b) 0 limit (Suc 0) =
           Inr ((json_normalize (replicate b (example_row ''2022-11-01'')))
                  \<lparr>rows := replicate b (processed_example_row (2022, 11, 1))\<rparr>)"
    using assms(2) p1
    by (subst tournament_page_well_formed [OF s1])
       (simp_all add: scenario_env_def example_row_def cell_def example_to_date_def
          example_astype_float_def map_replicate)
  show "tournament_page (scenario_env a b) 0 limit (Suc (Suc 0)) = Inl (KeyError ''StartDate'')"
    by (simp add: tournament_page_def scenario_env_def scenario_server_def fetched_def
        DataFrame_empty_def process_tournaments_def getitem_def)
qed

lemma StartDates_replicate:
  "StartDates (d\<lparr>rows := replicate n (processed_example_row x)\<rparr>) = replicate n x"
  by (induction n) (simp_all add: StartDates_def map_filter_simps processed_example_row_def cell_def)

lemma StartDates_append:
  "StartDates (df_append a b) = StartDates a @ StartDates b"
  by (simp add: StartDates_def df_append_def map_filter_def)

lemma scenario_run:
  "page_frame (scenario_env 100 40) 0 100 0 =
     (json_normalize (replicate 100 (example_row ''2023-06-01'')))
        \<lparr>rows := replicate 100 (processed_example_row (2023, 6, 1))\<rparr>"
  "page_frame (scenario_env 100 40) 0 100 (Suc 0) =
     (json_normalize (replicate 40 (example_row ''2022-11-01'')))
        \<lparr>rows := replicate 40 (processed_example_row (2022, 11, 1))\<rparr>"
  by (simp_all add: page_frame_def scenario_pages)

lemma scenario_accumulated:
  "StartDates (accumulated (scenario_env 100 40) 0 100 (Suc 0)) = replicate 100 (2023, 6, 1)"
  "StartDates (accumulated (scenario_env 100 40) 0 100 (Suc (Suc 0))) =
     replicate 100 (2023, 6, 1) @ replicate 40 (2022, 11, 1)"
  "length (rows (accumulated (scenario_env 100 40) 0 100 (Suc (Suc 0)))) = 140"
proof -
  have e: "StartDates DataFrame_empty = []" by (simp add: StartDates_def DataFrame_empty_def map_filter_simps)
  show "StartDates (accumulated (scenario_env 100 40) 0 100 (Suc 0)) = replicate 100 (2023, 6, 1)"
    by (simp add: accumulated_Suc accumulated_0 StartDates_append scenario_run StartDates_replicate e)
  show "StartDates (accumulated (scenario_env 100 40) 0 100 (Suc (Suc 0))) =
     replicate 100 (2023, 6, 1) @ replicate 40 (2022, 11, 1)"
    by (simp add: accumulated_Suc accumulated_0 StartDates_append scenario_run StartDates_replicate e)
  show "length (rows (accumulated (scenario_env 100 40) 0 100 (Suc (Suc 0)))) = 140"
    by (simp add: accumulated_Suc accumulated_0 df_append_def DataFrame_empty_def scenario_run)
qed

lemma scenario_tests:
  "\<not> stops_after (scenario_env 100 40) 0 (2023, 1, 1) 100 0"
  "\<not> stops_after (scenario_env 100 40) 0 (2023, 1, 1) 100 (Suc 0)"
  "\<not> stops_after (scenario_env 100 40) 0 (2023, 1, 1) 100 (Suc (Suc 0))"
  "Min (set (StartDates (accumulated (scenario_env 100 40) 0 100 (Suc (Suc 0))))) = (2022, 11, 1)"
proof -
  show "\<not> stops_after (scenario_env 100 40) 0 (2023, 1, 1) 100 0"
    by (simp add: stops_after_def)
  show "\<not> stops_after (scenario_env 100 40) 0 (2023, 1, 1) 100 (Suc 0)"
    by (simp add: stops_after_def scenario_accumulated)
  show "\<not> stops_after (scenario_env 100 40) 0 (2023, 1, 1) 100 (Suc (Suc 0))"
    by (simp add: stops_after_def scenario_run shape0_def)
  show "Min (set (StartDates (accumulated (scenario_env 100 40) 0 100 (Suc (Suc 0))))) = (2022, 11, 1)"
    by (simp add: scenario_accumulated)
qed

text \<open>
  Claim C2, evaluated on the code. Cutoff 2023-01-01, limit 100; the first page has 100 rows
  with least StartDate 2023-06-01, the second has 40 rows and brings the least StartDate of
  the 140 accumulated rows to 2022-11-01; the server has nothing more and answers the third
  request with an empty body. The loop goes on after the first page, and it goes on after
  the second page as well (40 is below the limit): it makes a third fetch and ends with
  KeyError from \<^verbatim>\<open>process_tournaments\<close>, returning no accumulator.
\<close>

theorem get_tournament_data_scenario:
  "shape0 (page_frame (scenario_env 100 40) 0 100 0) = 100 \<and>
   Min (set (StartDates (accumulated (scenario_env 100 40) 0 100 1))) = (2023, 6, 1) \<and>
   shape0 (page_frame (scenario_env 100 40) 0 100 1) = 40 \<and>
   length (rows (accumulated (scenario_env 100 40) 0 100 2)) = 140 \<and>
   Min (set (StartDates (accumulated (scenario_env 100 40) 0 100 2))) = (2022, 11, 1) \<and>
   (\<exists>w'. get_tournament_data (scenario_env 100 40) (2023, 1, 1) 100 False start_world =
           Some (Inl (KeyError ''StartDate''), w') \<and> length (exchanges w') = 3)"
proof -
  have e: "length (exchanges start_world) = 0" by (simp add: start_world_def)
  have ok: "pages_ok (scenario_env 100 40) 0 100 (Suc (Suc 0))"
    by (simp add: pages_ok_def less_Suc_eq scenario_pages)
  with scenario_tests have c: "continues_through (scenario_env 100 40) 0 (2023, 1, 1) 100 (Suc (Suc 0))"
    by (simp add: continues_through_def less_Suc_eq)
  from get_tournament_data_fault [of "scenario_env 100 40" start_world "(2023, 1, 1)" 100 "Suc (Suc 0)"
      "KeyError ''StartDate''" False] c scenario_tests(3) scenario_pages(3) [of 100 40 100]
  have r: "\<exists>w'. get_tournament_data (scenario_env 100 40) (2023, 1, 1) 100 False start_world =
           Some (Inl (KeyError ''StartDate''), w') \<and> length (exchanges w') = 3"
    unfolding e by (auto simp: numeral_3_eq_3)
  have "shape0 (page_frame (scenario_env 100 40) 0 100 0) = 100"
    "shape0 (page_frame (scenario_env 100 40) 0 100 (Suc 0)) = 40"
    by (simp_all add: scenario_run shape0_def)
  moreover have "Min (set (StartDates (accumulated (scenario_env 100 40) 0 100 (Suc 0)))) = (2023, 6, 1)"
    by (simp add: scenario_accumulated)
  ultimately show ?thesis
    unfolding One_nat_def numeral_2_eq_2
    using r scenario_tests(4) scenario_accumulated(3) by blast
qed

lemma earnings_frame_rows:
  "rows (earnings_frame E u g limit n0 k) = tagged ''GameId'' g (earnings_reply E u g limit n0 k)"
  by (simp add: earnings_frame_def tagged_def reply_rows_def setitem_def DataFrame_empty_def
      split: sum.splits)

lemma earnings_accumulated_Suc:
  "earnings_accumulated E u g limit n0 acc (Suc n) =
     df_append (earnings_accumulated E u g limit n0 acc n) (earnings_frame E u g limit n0 n)"
  by (simp add: earnings_accumulated_def)

lemma earnings_accumulated_rows:
  "rows (earnings_accumulated E u g limit n0 acc n) =
     rows acc @ concat (map (\<lambda>k. tagged ''GameId'' g (earnings_reply E u g limit n0 k)) [0..<n])"
  by (induction n) (simp_all add: earnings_accumulated_Suc df_append_def earnings_frame_rows,
      simp add: earnings_accumulated_def)

lemma earnings_step_stop:
  assumes "earnings_stops E u g limit n0 n"
  shows "earnings_step E u g limit vb (earnings_locals_after E u g limit n0 acc n, w) =
           Inl (Inr (earnings_accumulated E u g limit n0 acc n), w)"
  using assms by (simp add: earnings_step_def earnings_locals_after_def)

lemma earnings_step_continue:
  assumes "\<not> earnings_stops E u g limit n0 n" and "length (exchanges w) = n0 + n"
  shows "\<exists>w'. exchanges w' = exchanges w @ [earnings_exchange E u g limit n0 n] \<and>
             files w' = files w \<and>
           earnings_step E u g limit vb (earnings_locals_after E u g limit n0 acc n, w) =
             (case fetched (earnings_reply E u g limit n0 n) of
                Inl e \<Rightarrow> Inl (Inl e, w')
              | Inr f \<Rightarrow> Inr (earnings_locals_after E u g limit n0 acc (Suc n), w'))"
  using assms
  by (auto simp: earnings_step_def earnings_locals_after_def get_data_eq Let_def
        earnings_exchange_def earnings_reply_def earnings_request_def earnings_accumulated_Suc
        earnings_frame_def earnings_stops_def short_page_def reply_rows_def shape0_def setitem_def
        print_def sleep_def algebra_simps
      split: sum.splits)

lemma earnings_locals_after_0:
  "earnings_locals_after E u g limit n0 acc 0 =
     \<lparr>page_offset = 0, last_page = False, df_game_earnings_all = acc\<rparr>"
  by (simp add: earnings_locals_after_def earnings_stops_def earnings_accumulated_def)

lemma iterate_earnings_D:
  assumes "length (exchanges w0) = n0"
  shows "iterate_steps n (earnings_step E u g limit vb) (earnings_locals_after E u g limit n0 acc 0, w0)
           = Some (s, w')
         \<Longrightarrow> earnings_continues E u g limit n0 n \<and> s = earnings_locals_after E u g limit n0 acc n \<and>
             exchanges w' = exchanges w0 @ map (earnings_exchange E u g limit n0) [0..<n] \<and>
             files w' = files w0"
proof (induction n arbitrary: s w')
  case 0
  then show ?case by (simp add: earnings_continues_def earnings_fetch_ok_def)
next
  case (Suc n)
  from Suc.prems [unfolded iterate_steps_Suc_last] obtain s1 w1 where
    it: "iterate_steps n (earnings_step E u g limit vb) (earnings_locals_after E u g limit n0 acc 0, w0)
           = Some (s1, w1)"
    and st: "earnings_step E u g limit vb (s1, w1) = Inr (s, w')"
    by (auto split: option.splits sum.splits)
  from Suc.IH [OF it] have ih: "earnings_continues E u g limit n0 n"
    "s1 = earnings_locals_after E u g limit n0 acc n"
    "exchanges w1 = exchanges w0 @ map (earnings_exchange E u g limit n0) [0..<n]"
    "files w1 = files w0" by auto
  from ih(3) assms have len: "length (exchanges w1) = n0 + n" by simp
  have ns: "\<not> earnings_stops E u g limit n0 n"
  proof
    assume "earnings_stops E u g limit n0 n"
    from earnings_step_stop [OF this] st ih(2) show False by simp
  qed
  from earnings_step_continue [OF ns len, of vb acc] obtain w2 where
    w2: "exchanges w2 = exchanges w1 @ [earnings_exchange E u g limit n0 n]" "files w2 = files w1"
    and eq: "earnings_step E u g limit vb (earnings_locals_after E u g limit n0 acc n, w1) =
             (case fetched (earnings_reply E u g limit n0 n) of
                Inl e \<Rightarrow> Inl (Inl e, w2)
              | Inr f \<Rightarrow> Inr (earnings_locals_after E u g limit n0 acc (Suc n), w2))"
    by blast
  from eq st ih(2) obtain f where f: "fetched (earnings_reply E u g limit n0 n) = Inr f"
    and r: "s = earnings_locals_after E u g limit n0 acc (Suc n)" "w' = w2"
    by (cases "fetched (earnings_reply E u g limit n0 n)") auto
  from f ih(1) ns have "earnings_continues E u g limit n0 (Suc n)"
    by (auto simp: earnings_continues_def earnings_fetch_ok_def less_Suc_eq)
  with r w2 ih(3,4) show ?case by simp
qed

lemma iterate_earnings_I:
  assumes "length (exchanges w0) = n0"
  shows "earnings_continues E u g limit n0 n \<Longrightarrow>
         \<exists>w'. iterate_steps n (earnings_step E u g limit vb)
                 (earnings_locals_after E u g limit n0 acc 0, w0)
                = Some (earnings_locals_after E u g limit n0 acc n, w') \<and>
              exchanges w' = exchanges w0 @ map (earnings_exchange E u g limit n0) [0..<n] \<and>
              files w' = files w0"
proof (induction n)
  case 0
  then show ?case by simp
next
  case (Suc n)
  from Suc.prems have c: "earnings_continues E u g limit n0 n"
    and ns: "\<not> earnings_stops E u g limit n0 n"
    and pn: "\<not> isl (fetched (earnings_reply E u g limit n0 n))"
    by (auto simp: earnings_continues_def earnings_fetch_ok_def)
  from Suc.IH [OF c] obtain w1 where
    it: "iterate_steps n (earnings_step E u g limit vb) (earnings_locals_after E u g limit n0 acc 0, w0)
           = Some (earnings_locals_after E u g limit n0 acc n, w1)"
    and w1: "exchanges w1 = exchanges w0 @ map (earnings_exchange E u g limit n0) [0..<n]"
      "files w1 = files w0" by blast
  from w1(1) assms have len: "length (exchanges w1) = n0 + n" by simp
  from earnings_step_continue [OF ns len, of vb acc] obtain w2 where
    w2: "exchanges w2 = exchanges w1 @ [earnings_exchange E u g limit n0 n]" "files w2 = files w1"
    and eq: "earnings_step E u g limit vb (earnings_locals_after E u g limit n0 acc n, w1) =
             (case fetched (earnings_reply E u g limit n0 n) of
                Inl e \<Rightarrow> Inl (Inl e, w2)
              | Inr f \<Rightarrow> Inr (earnings_locals_after E u g limit n0 acc (Suc n), w2))"
    by blast
  from pn obtain f where "fetched (earnings_reply E u g limit n0 n) = Inr f"
    by (cases "fetched (earnings_reply E u g limit n0 n)") auto
  with eq have "earnings_step E u g limit vb (earnings_locals_after E u g limit n0 acc n, w1) =
      Inr (earnings_locals_after E u g limit n0 acc (Suc n), w2)" by simp
  with it have "iterate_steps (Suc n) (earnings_step E u g limit vb)
                  (earnings_locals_after E u g limit n0 acc 0, w0)
                = Some (earnings_locals_after E u g limit n0 acc (Suc n), w2)"
    unfolding iterate_steps_Suc_last by simp
  with w2 w1 show ?case by auto
qed

lemma earnings_for_game_loop:
  "earnings_for_game E u limit vb g acc w =
     while_loop (earnings_step E u g limit vb)
       (earnings_locals_after E u g limit (length (exchanges w)) acc 0, w)"
  by (simp add: earnings_for_game_def earnings_locals_after_0)

lemma earnings_for_game_cases:
  assumes "earnings_for_game E u limit vb g acc w = Some (r, w')"
  shows "\<exists>m. earnings_continues E u g limit (length (exchanges w)) m \<and> files w' = files w \<and>
           (if earnings_stops E u g limit (length (exchanges w)) m
            then r = Inr (earnings_accumulated E u g limit (length (exchanges w)) acc m) \<and>
                 exchanges w' = exchanges w @
                   map (earnings_exchange E u g limit (length (exchanges w))) [0..<m]
            else fetched (earnings_reply E u g limit (length (exchanges w)) m) = r \<and> isl r \<and>
                 exchanges w' = exchanges w @
                   map (earnings_exchange E u g limit (length (exchanges w))) [0..<Suc m])"
proof -
  define n0 where "n0 = length (exchanges w)"
  have w0: "length (exchanges w) = n0" by (simp add: n0_def)
  from assms have "while_loop (earnings_step E u g limit vb)
       (earnings_locals_after E u g limit n0 acc 0, w) = Some (r, w')"
    by (simp add: earnings_for_game_loop n0_def)
  from while_loop_SomeD [OF this] obtain m s w1 where
    it: "iterate_steps m (earnings_step E u g limit vb) (earnings_locals_after E u g limit n0 acc 0, w)
           = Some (s, w1)"
    and st: "earnings_step E u g limit vb (s, w1) = Inl (r, w')"
    by auto
  from iterate_earnings_D [OF w0 it]
  have c: "earnings_continues E u g limit n0 m" and s: "s = earnings_locals_after E u g limit n0 acc m"
    and w1: "exchanges w1 = exchanges w @ map (earnings_exchange E u g limit n0) [0..<m]"
      "files w1 = files w" by auto
  from w1(1) have len: "length (exchanges w1) = n0 + m" by (simp add: n0_def)
  have "files w' = files w \<and>
           (if earnings_stops E u g limit n0 m
            then r = Inr (earnings_accumulated E u g limit n0 acc m) \<and>
                 exchanges w' = exchanges w @ map (earnings_exchange E u g limit n0) [0..<m]
            else fetched (earnings_reply E u g limit n0 m) = r \<and> isl r \<and>
                 exchanges w' = exchanges w @ map (earnings_exchange E u g limit n0) [0..<Suc m])"
  proof (cases "earnings_stops E u g limit n0 m")
    case True
    from earnings_step_stop [OF True, of vb acc w1] st s w1 True show ?thesis by simp
  next
    case False
    from earnings_step_continue [OF False len, of vb acc] obtain w2 where
      w2: "exchanges w2 = exchanges w1 @ [earnings_exchange E u g limit n0 m]" "files w2 = files w1"
      and eq: "earnings_step E u g limit vb (earnings_locals_after E u g limit n0 acc m, w1) =
             (case fetched (earnings_reply E u g limit n0 m) of
                Inl e \<Rightarrow> Inl (Inl e, w2)
              | Inr f \<Rightarrow> Inr (earnings_locals_after E u g limit n0 acc (Suc m), w2))"
      by blast
    show ?thesis
    proof (cases "fetched (earnings_reply E u g limit n0 m)")
      case (Inl e)
      with eq st s have "r = Inl e" "w' = w2" by auto
      with Inl False w2 w1 show ?thesis by simp
    next
      case (Inr f)
      with eq st s show ?thesis by simp
    qed
  qed
  with c show ?thesis unfolding n0_def by blast
qed

lemma earnings_for_game_stop:
  assumes "earnings_continues E u g limit (length (exchanges w)) m"
    and "earnings_stops E u g limit (length (exchanges w)) m"
  shows "\<exists>w'. earnings_for_game E u limit vb g acc w =
                Some (Inr (earnings_accumulated E u g limit (length (exchanges w)) acc m), w') \<and>
              exchanges w' = exchanges w @
                map (earnings_exchange E u g limit (length (exchanges w))) [0..<m] \<and>
              files w' = files w"
proof -
  define n0 where "n0 = length (exchanges w)"
  have w0: "length (exchanges w) = n0" by (simp add: n0_def)
  from assms have c: "earnings_continues E u g limit n0 m" and st: "earnings_stops E u g limit n0 m"
    by (simp_all add: n0_def)
  from iterate_earnings_I [OF w0 c, of vb acc] obtain w1 where
    it: "iterate_steps m (earnings_step E u g limit vb) (earnings_locals_after E u g limit n0 acc 0, w)
                = Some (earnings_locals_after E u g limit n0 acc m, w1)"
    and w1: "exchanges w1 = exchanges w @ map (earnings_exchange E u g limit n0) [0..<m]"
      "files w1 = files w" by blast
  from while_loop_SomeI [OF it earnings_step_stop [OF st]]
  have "earnings_for_game E u limit vb g acc w =
          Some (Inr (earnings_accumulated E u g limit n0 acc m), w1)"
    by (simp add: earnings_for_game_loop n0_def)
  with w1 show ?thesis unfolding n0_def by auto
qed

lemma earnings_continues_iff:
  "earnings_continues E u g limit n0 n \<and> earnings_stops E u g limit n0 n \<longleftrightarrow>
     0 < n \<and> earnings_fetch_ok E u g limit n0 n \<and> short_page E u g limit n0 (n - 1) \<and>
     (\<forall>k<n - 1. \<not> short_page E u g limit n0 k)"
proof -
  have "(\<forall>k<n. \<not> earnings_stops E u g limit n0 k) \<longleftrightarrow> (\<forall>k<n - 1. \<not> short_page E u g limit n0 k)"
  proof
    assume a: "\<forall>k<n. \<not> earnings_stops E u g limit n0 k"
    show "\<forall>k<n - 1. \<not> short_page E u g limit n0 k"
    proof (intro allI impI)
      fix k assume "k < n - 1"
      then have "Suc k < n" by simp
      with a have "\<not> earnings_stops E u g limit n0 (Suc k)" by blast
      then show "\<not> short_page E u g limit n0 k" by (simp add: earnings_stops_def)
    qed
  next
    assume a: "\<forall>k<n - 1. \<not> short_page E u g limit n0 k"
    show "\<forall>k<n. \<not> earnings_stops E u g limit n0 k"
    proof (intro allI impI)
      fix k assume k: "k < n"
      show "\<not> earnings_stops E u g limit n0 k"
      proof (cases k)
        case 0
        then show ?thesis by (simp add: earnings_stops_def)
      next
        case (Suc j)
        with k have "j < n - 1" by simp
        with a Suc show ?thesis by (simp add: earnings_stops_def)
      qed
    qed
  qed
  then show ?thesis by (auto simp: earnings_continues_def earnings_stops_def)
qed

text \<open>
  Claim C5. For one identifier the inner loop of \<^verbatim>\<open>get_game_earnings\<close> returns after exactly
  \<open>n\<close> fetches if and only if \<open>n\<close> is positive, the \<open>n\<close> fetches raised nothing, the \<open>n\<close>-th page
  has fewer than \<open>limit\<close> rows and no earlier page has: it stops exactly at the first short
  page. In particular, when the first page has exactly \<open>limit\<close> rows and the second has fewer,
  the loop returns after the second fetch, the two exchanges are the only ones made, and the
  rows added to the accumulator are the tagged rows of page one followed by those of page two.
\<close>

theorem earnings_for_game_stops_on_short_page:
  "((\<exists>d w'. earnings_for_game E u limit vb g acc w = Some (Inr d, w') \<and>
            length (exchanges w') = length (exchanges w) + n)
    \<longleftrightarrow> 0 < n \<and> earnings_fetch_ok E u g limit (length (exchanges w)) n \<and>
        short_page E u g limit (length (exchanges w)) (n - 1) \<and>
        (\<forall>k<n - 1. \<not> short_page E u g limit (length (exchanges w)) k)) \<and>
   (\<not> isl (fetched (earnings_reply E u g limit (length (exchanges w)) 0)) \<and>
    \<not> isl (fetched (earnings_reply E u g limit (length (exchanges w)) (Suc 0))) \<and>
    int (length (reply_rows (earnings_reply E u g limit (length (exchanges w)) 0))) = limit \<and>
    int (length (reply_rows (earnings_reply E u g limit (length (exchanges w)) (Suc 0)))) < limit
    \<longrightarrow> (\<exists>d w'. earnings_for_game E u limit vb g acc w = Some (Inr d, w') \<and>
           rows d = rows acc @
             tagged ''GameId'' g (earnings_reply E u g limit (length (exchanges w)) 0) @
             tagged ''GameId'' g (earnings_reply E u g limit (length (exchanges w)) (Suc 0)) \<and>
           length (rows d) = length (rows acc) +
             length (reply_rows (earnings_reply E u g limit (length (exchanges w)) 0)) +
             length (reply_rows (earnings_reply E u g limit (length (exchanges w)) (Suc 0))) \<and>
           exchanges w' = exchanges w @
             [earnings_exchange E u g limit (length (exchanges w)) 0,
              earnings_exchange E u g limit (length (exchanges w)) (Suc 0)]))"
proof -
  let ?n0 = "length (exchanges w)"
  have a: "earnings_continues E u g limit ?n0 n \<and> earnings_stops E u g limit ?n0 n"
    if "\<exists>d w'. earnings_for_game E u limit vb g acc w = Some (Inr d, w') \<and>
            length (exchanges w') = ?n0 + n"
  proof -
    from that obtain d w' where r: "earnings_for_game E u limit vb g acc w = Some (Inr d, w')"
      and len: "length (exchanges w') = ?n0 + n" by blast
    from earnings_for_game_cases [OF r] len show ?thesis
      by (auto split: if_splits)
  qed
  have b: "\<exists>d w'. earnings_for_game E u limit vb g acc w = Some (Inr d, w') \<and>
            length (exchanges w') = ?n0 + n"
    if "earnings_continues E u g limit ?n0 n \<and> earnings_stops E u g limit ?n0 n"
  proof -
    from that have "earnings_continues E u g limit ?n0 n" and "earnings_stops E u g limit ?n0 n"
      by simp_all
    from earnings_for_game_stop [OF this, of vb acc] show ?thesis by auto
  qed
  have c: "\<exists>d w'. earnings_for_game E u limit vb g acc w = Some (Inr d, w') \<and>
           rows d = rows acc @ tagged ''GameId'' g (earnings_reply E u g limit ?n0 0) @
             tagged ''GameId'' g (earnings_reply E u g limit ?n0 (Suc 0)) \<and>
           length (rows d) = length (rows acc) +
             length (reply_rows (earnings_reply E u g limit ?n0 0)) +
             length (reply_rows (earnings_reply E u g limit ?n0 (Suc 0))) \<and>
           exchanges w' = exchanges w @
             [earnings_exchange E u g limit ?n0 0, earnings_exchange E u g limit ?n0 (Suc 0)]"
    if h: "\<not> isl (fetched (earnings_reply E u g limit ?n0 0)) \<and>
      \<not> isl (fetched (earnings_reply E u g limit ?n0 (Suc 0))) \<and>
      int (length (reply_rows (earnings_reply E u g limit ?n0 0))) = limit \<and>
      int (length (reply_rows (earnings_reply E u g limit ?n0 (Suc 0)))) < limit"
  proof -
    from h have "0 < Suc (Suc 0) \<and> earnings_fetch_ok E u g limit ?n0 (Suc (Suc 0)) \<and>
        short_page E u g limit ?n0 (Suc (Suc 0) - 1) \<and>
        (\<forall>k<Suc (Suc 0) - 1. \<not> short_page E u g limit ?n0 k)"
      by (simp add: earnings_fetch_ok_def short_page_def less_Suc_eq)
    then have "earnings_continues E u g limit ?n0 (Suc (Suc 0))"
      and "earnings_stops E u g limit ?n0 (Suc (Suc 0))"
      using earnings_continues_iff [of E u g limit ?n0 "Suc (Suc 0)"] by blast+
    from earnings_for_game_stop [OF this, of vb acc] obtain w' where
      "earnings_for_game E u limit vb g acc w =
          Some (Inr (earnings_accumulated E u g limit ?n0 acc (Suc (Suc 0))), w')"
      "exchanges w' = exchanges w @ map (earnings_exchange E u g limit ?n0) [0..<Suc (Suc 0)]"
      by blast
    then show ?thesis
      by (simp add: earnings_accumulated_rows tagged_def)
  qed
  from a b c earnings_continues_iff [of E u g limit ?n0 n] show ?thesis by blast
qed

lemma games_loop_trace:
  "games_loop E vb ids acc w = (Inr d, w') \<Longrightarrow>
   \<exists>rps. length rps = length ids \<and>
     exchanges w' = exchanges w @ zip (map (games_request E) ids) rps \<and>
     (\<forall>i<length ids. rps ! i = server E (length (exchanges w) + i) (games_request E (ids ! i))) \<and>
     rows d = rows acc @ concat (map (\<lambda>(ident, rp). tagged ''GameId'' ident rp) (zip ids rps)) \<and>
     files w' = files w"
proof (induction ids arbitrary: acc w)
  case Nil
  then show ?case by simp
next
  case (Cons g ids)
  define rq where "rq = games_request E g"
  define rp where "rp = server E (length (exchanges w)) rq"
  define w1 where "w1 = w\<lparr>exchanges := exchanges w @ [(rq, rp)], stdout := stdout w @ logged rp\<rparr>"
  have gd: "get_data E (base_url @ game_by_id) (games_params E g) w = (fetched rp, w1)"
    by (simp add: get_data_eq Let_def rq_def rp_def w1_def games_request_def)
  from Cons.prems gd obtain f where f: "fetched rp = Inr f"
    by (cases "fetched rp") auto
  define acc' where "acc' = df_append acc (setitem f ''GameId'' g)"
  from Cons.prems gd f obtain w2 where
    rec: "games_loop E vb ids acc' w2 = (Inr d, w')"
    and w2: "exchanges w2 = exchanges w1" "files w2 = files w1"
    by (auto simp: Let_def acc'_def sleep_def print_def split: if_splits sum.splits list.splits)
  from Cons.IH [OF rec] obtain rps where
    rps: "length rps = length ids"
    "exchanges w' = exchanges w2 @ zip (map (games_request E) ids) rps"
    "\<forall>i<length ids. rps ! i = server E (length (exchanges w2) + i) (games_request E (ids ! i))"
    "rows d = rows acc' @ concat (map (\<lambda>(ident, rp). tagged ''GameId'' ident rp) (zip ids rps))"
    "files w' = files w2"
    by blast
  have t: "rows acc' = rows acc @ tagged ''GameId'' g rp"
    using f by (simp add: acc'_def df_append_def setitem_def tagged_def reply_rows_def)
  have idx: "\<forall>i<length (g # ids). (rp # rps) ! i =
      server E (length (exchanges w) + i) (games_request E ((g # ids) ! i))"
  proof (intro allI impI)
    fix i assume i: "i < length (g # ids)"
    show "(rp # rps) ! i = server E (length (exchanges w) + i) (games_request E ((g # ids) ! i))"
    proof (cases i)
      case 0
      then show ?thesis by (simp add: rp_def rq_def)
    next
      case (Suc j)
      with i rps(3) w2 show ?thesis by (simp add: w1_def)
    qed
  qed
  have "length (rp # rps) = length (g # ids) \<and>
     exchanges w' = exchanges w @ zip (map (games_request E) (g # ids)) (rp # rps) \<and>
     rows d = rows acc @ concat (map (\<lambda>(ident, rp). tagged ''GameId'' ident rp) (zip (g # ids) (rp # rps))) \<and>
     files w' = files w"
    using rps w2 t by (simp add: w1_def rq_def)
  with idx show ?case by blast
qed

lemma results_loop_trace:
  "results_loop E u vb ids acc w = (Inr d, w') \<Longrightarrow>
   \<exists>rps. length rps = length ids \<and>
     exchanges w' = exchanges w @ zip (map (results_request E u) ids) rps \<and>
     (\<forall>i<length ids. rps ! i = server E (length (exchanges w) + i) (results_request E u (ids ! i))) \<and>
     rows d = rows acc @ concat (map (\<lambda>(ident, rp). tagged ''TournamentId'' ident rp) (zip ids rps)) \<and>
     files w' = files w"
proof (induction ids arbitrary: acc w)
  case Nil
  then show ?case by simp
next
  case (Cons g ids)
  define rq where "rq = results_request E u g"
  define rp where "rp = server E (length (exchanges w)) rq"
  define w1 where "w1 = w\<lparr>exchanges := exchanges w @ [(rq, rp)], stdout := stdout w @ logged rp\<rparr>"
  have gd: "get_data E u (results_params E g) w = (fetched rp, w1)"
    by (simp add: get_data_eq Let_def rq_def rp_def w1_def results_request_def)
  from Cons.prems gd obtain f where f: "fetched rp = Inr f"
    by (cases "fetched rp") auto
  define acc' where "acc' = df_append acc (setitem f ''TournamentId'' g)"
  from Cons.prems gd f obtain w2 where
    rec: "results_loop E u vb ids acc' w2 = (Inr d, w')"
    and w2: "exchanges w2 = exchanges w1" "files w2 = files w1"
    by (auto simp: Let_def acc'_def sleep_def print_def split: if_splits sum.splits)
  from Cons.IH [OF rec] obtain rps where
    rps: "length rps = length ids"
    "exchanges w' = exchanges w2 @ zip (map (results_request E u) ids) rps"
    "\<forall>i<length ids. rps ! i = server E (length (exchanges w2) + i) (results_request E u (ids ! i))"
    "rows d = rows acc' @ concat (map (\<lambda>(ident, rp). tagged ''TournamentId'' ident rp) (zip ids rps))"
    "files w' = files w2"
    by blast
  have t: "rows acc' = rows acc @ tagged ''TournamentId'' g rp"
    using f by (simp add: acc'_def df_append_def setitem_def tagged_def reply_rows_def)
  have idx: "\<forall>i<length (g # ids). (rp # rps) ! i =
      server E (length (exchanges w) + i) (results_request E u ((g # ids) ! i))"
  proof (intro allI impI)
    fix i assume i: "i < length (g # ids)"
    show "(rp # rps) ! i = server E (length (exchanges w) + i) (results_request E u ((g # ids) ! i))"
    proof (cases i)
      case 0
      then show ?thesis by (simp add: rp_def rq_def)
    next
      case (Suc j)
      with i rps(3) w2 show ?thesis by (simp add: w1_def)
    qed
  qed
  have "length (rp # rps) = length (g # ids) \<and>
     exchanges w' = exchanges w @ zip (map (results_request E u) (g # ids)) (rp # rps) \<and>
     rows d = rows acc @ concat (map (\<lambda>(ident, rp). tagged ''TournamentId'' ident rp) (zip (g # ids) (rp # rps))) \<and>
     files w' = files w"
    using rps w2 t by (simp add: w1_def rq_def)
  with idx show ?case by blast
qed

lemma earnings_loop_trace:
  "earnings_loop E u limit vb ids acc w = Some (Inr d, w') \<Longrightarrow>
   \<exists>gs. length gs = length ids \<and>
     exchanges w' = exchanges w @ concat gs \<and>
     (\<forall>i<length ids. gs ! i \<noteq> [] \<and>
        map fst (gs ! i) =
          map (\<lambda>j. earnings_request E u (ids ! i) (int j * limit)) [0..<length (gs ! i)]) \<and>
     rows d = rows acc @
       concat (map (\<lambda>(ident, g). concat (map (\<lambda>x. tagged ''GameId'' ident (snd x)) g)) (zip ids gs)) \<and>
     files w' = files w"
proof (induction ids arbitrary: acc w)
  case Nil
  then show ?case by simp
next
  case (Cons g ids)
  from Cons.prems obtain acc' w1 where
    one: "earnings_for_game E u limit vb g acc w = Some (Inr acc', w1)"
    and rec: "earnings_loop E u limit vb ids acc' w1 = Some (Inr d, w')"
    by (auto split: option.splits sum.splits prod.splits)
  define n0 where "n0 = length (exchanges w)"
  from earnings_for_game_cases [OF one] obtain m where
    m: "earnings_stops E u g limit n0 m"
    "acc' = earnings_accumulated E u g limit n0 acc m"
    "exchanges w1 = exchanges w @ map (earnings_exchange E u g limit n0) [0..<m]"
    "files w1 = files w"
    unfolding n0_def by (auto split: if_splits)
  define grp where "grp = map (earnings_exchange E u g limit n0) [0..<m]"
  from m(1) have g1: "grp \<noteq> []" by (simp add: grp_def earnings_stops_def)
  have g2: "map fst grp = map (\<lambda>j. earnings_request E u g (int j * limit)) [0..<length grp]"
    by (simp add: grp_def earnings_exchange_def)
  have g3: "rows acc' = rows acc @ concat (map (\<lambda>x. tagged ''GameId'' g (snd x)) grp)"
    by (simp add: m(2) earnings_accumulated_rows grp_def earnings_exchange_def o_def)
  from Cons.IH [OF rec] obtain gs where
    gs: "length gs = length ids"
    "exchanges w' = exchanges w1 @ concat gs"
    "\<forall>i<length ids. gs ! i \<noteq> [] \<and>
        map fst (gs ! i) =
          map (\<lambda>j. earnings_request E u (ids ! i) (int j * limit)) [0..<length (gs ! i)]"
    "rows d = rows acc' @
       concat (map (\<lambda>(ident, g). concat (map (\<lambda>x. tagged ''GameId'' ident (snd x)) g)) (zip ids gs))"
    "files w' = files w1"
    by blast
  have idx: "\<forall>i<length (g # ids). (grp # gs) ! i \<noteq> [] \<and>
        map fst ((grp # gs) ! i) =
          map (\<lambda>j. earnings_request E u ((g # ids) ! i) (int j * limit)) [0..<length ((grp # gs) ! i)]"
  proof (intro allI impI)
    fix i assume i: "i < length (g # ids)"
    show "(grp # gs) ! i \<noteq> [] \<and>
        map fst ((grp # gs) ! i) =
          map (\<lambda>j. earnings_request E u ((g # ids) ! i) (int j * limit)) [0..<length ((grp # gs) ! i)]"
    proof (cases i)
      case 0
      with g1 g2 show ?thesis by simp
    next
      case (Suc j)
      with i gs(3) show ?thesis by simp
    qed
  qed
  have "length (grp # gs) = length (g # ids) \<and>
     exchanges w' = exchanges w @ concat (grp # gs) \<and>
     rows d = rows acc @
       concat (map (\<lambda>(ident, g). concat (map (\<lambda>x. tagged ''GameId'' ident (snd x)) g))
         (zip (g # ids) (grp # gs))) \<and>
     files w' = files w"
    using gs m(3,4) g3 by (simp add: grp_def)
  with idx show ?case by blast
qed

lemma get_games_data_trace:
  assumes "get_games_data E ids vb w = (Inr d, w')"
  shows "\<exists>rps. length rps = length ids \<and>
     exchanges w' = exchanges w @ zip (map (games_request E) ids) rps \<and>
     (\<forall>i<length ids. rps ! i = server E (length (exchanges w) + i) (games_request E (ids ! i))) \<and>
     rows d = concat (map (\<lambda>(ident, rp). tagged ''GameId'' ident rp) (zip ids rps)) \<and>
     files w' = files w"
  using games_loop_trace [OF assms [unfolded get_games_data_def]]
  by (simp add: print_def DataFrame_empty_def)

lemma get_tournament_earnings_trace:
  assumes "get_tournament_earnings E ids teamplay vb w = (Inr d, w')"
  shows "\<exists>rps. length rps = length ids \<and>
     exchanges w' = exchanges w @
       zip (map (results_request E
                  (if teamplay then base_url @ tournament_team_results_by_tournament_id
                   else base_url @ tournament_results_by_tournament_id)) ids) rps \<and>
     (\<forall>i<length ids. rps ! i = server E (length (exchanges w) + i)
        (results_request E
           (if teamplay then base_url @ tournament_team_results_by_tournament_id
            else base_url @ tournament_results_by_tournament_id) (ids ! i))) \<and>
     rows d = concat (map (\<lambda>(ident, rp). tagged ''TournamentId'' ident rp) (zip ids rps)) \<and>
     files w' = files w"
  using results_loop_trace [OF assms [unfolded get_tournament_earnings_def]]
  by (simp add: DataFrame_empty_def)

lemma get_game_earnings_trace:
  assumes "get_game_earnings E ids teamplay limit vb w = Some (Inr d, w')"
  shows "\<exists>gs. length gs = length ids \<and>
     exchanges w' = exchanges w @ concat gs \<and>
     (\<forall>i<length ids. gs ! i \<noteq> [] \<and>
        map fst (gs ! i) =
          map (\<lambda>j. earnings_request E
                 (if teamplay then base_url @ highest_earning_teams_by_game
                  else base_url @ highest_earning_players_by_game) (ids ! i) (int j * limit))
            [0..<length (gs ! i)]) \<and>
     rows d =
       concat (map (\<lambda>(ident, g). concat (map (\<lambda>x. tagged ''GameId'' ident (snd x)) g)) (zip ids gs)) \<and>
     files w' = files w"
proof (cases teamplay)
  case True
  with assms have "earnings_loop E (base_url @ highest_earning_teams_by_game) limit vb ids
             DataFrame_empty (print [S ''Getting Games Earnings Team Data''] w) = Some (Inr d, w')"
    by (simp add: get_game_earnings_def)
  from earnings_loop_trace [OF this] True show ?thesis
    by (simp add: print_def DataFrame_empty_def)
next
  case False
  with assms have "earnings_loop E (base_url @ highest_earning_players_by_game) limit vb ids
             DataFrame_empty (print [S ''Getting Games Earnings Solo Data''] w) = Some (Inr d, w')"
    by (simp add: get_game_earnings_def)
  from earnings_loop_trace [OF this] False show ?thesis
    by (simp add: print_def DataFrame_empty_def)
qed






lemma tagged_groups:
  assumes "length xs = length ids"
  shows "\<exists>rss. length rss = length ids \<and>
           concat (map (\<lambda>(ident, x). map (AList.update c ident) (f x)) (zip ids xs)) = concat rss \<and>
           (\<forall>i<length ids. length (rss ! i) = length (f (xs ! i)) \<and>
              (\<forall>j<length (rss ! i). cell (rss ! i ! j) c = ids ! i \<and>
                 (\<forall>c'. c' \<noteq> c \<longrightarrow> cell (rss ! i ! j) c' = cell (f (xs ! i) ! j) c')))"
proof -
  let ?rss = "map (\<lambda>(ident, x). map (AList.update c ident) (f x)) (zip ids xs)"
  have "length ?rss = length ids" using assms by simp
  moreover have "\<forall>i<length ids. length (?rss ! i) = length (f (xs ! i)) \<and>
              (\<forall>j<length (?rss ! i). cell (?rss ! i ! j) c = ids ! i \<and>
                 (\<forall>c'. c' \<noteq> c \<longrightarrow> cell (?rss ! i ! j) c' = cell (f (xs ! i) ! j) c'))"
    using assms by simp
  ultimately show ?thesis by blast
qed

lemma tagged_pages:
  "concat (map (\<lambda>x. tagged c ident (snd x)) g) =
     map (AList.update c ident) (concat (map (\<lambda>x. reply_rows (snd x)) g))"
  by (simp add: tagged_def map_concat o_def)

text \<open>
  Claim C10. Whenever a per-identifier extractor returns its table, the rows of the table
  are, group by group in the order of the list, the rows of the replies to the requests made
  for each identifier: the group of an identifier has as many rows as were fetched under it,
  and each of its rows holds that identifier in GameId (TournamentId for
  \<^verbatim>\<open>get_tournament_earnings\<close>) and, in every other column, the value of the fetched row at
  the same position. Nothing is assumed about what the fetched row held in the tag column.
\<close>

theorem per_id_tag_overwrites:
  "(get_games_data E ids vb w = (Inr d1, w1) \<longrightarrow>
      (\<exists>rps rss. length rps = length ids \<and> length rss = length ids \<and>
         exchanges w1 = exchanges w @ zip (map (games_request E) ids) rps \<and>
         rows d1 = concat rss \<and>
         (\<forall>i<length ids. length (rss ! i) = length (reply_rows (rps ! i)) \<and>
            (\<forall>j<length (rss ! i). cell (rss ! i ! j) ''GameId'' = ids ! i \<and>
               (\<forall>c. c \<noteq> ''GameId'' \<longrightarrow>
                  cell (rss ! i ! j) c = cell (reply_rows (rps ! i) ! j) c))))) \<and>
   (get_game_earnings E ids teamplay limit vb w = Some (Inr d2, w2) \<longrightarrow>
      (\<exists>gs rss. length gs = length ids \<and> length rss = length ids \<and>
         exchanges w2 = exchanges w @ concat gs \<and>
         (\<forall>i<length ids. gs ! i \<noteq> [] \<and>
            map fst (gs ! i) =
              map (\<lambda>j. earnings_request E
                     (if teamplay then base_url @ highest_earning_teams_by_game
                      else base_url @ highest_earning_players_by_game) (ids ! i) (int j * limit))
                [0..<length (gs ! i)]) \<and>
         rows d2 = concat rss \<and>
         (\<forall>i<length ids.
            length (rss ! i) = length (concat (map (\<lambda>x. reply_rows (snd x)) (gs ! i))) \<and>
            (\<forall>j<length (rss ! i). cell (rss ! i ! j) ''GameId'' = ids ! i \<and>
               (\<forall>c. c \<noteq> ''GameId'' \<longrightarrow>
                  cell (rss ! i ! j) c =
                    cell (concat (map (\<lambda>x. reply_rows (snd x)) (gs ! i)) ! j) c))))) \<and>
   (get_tournament_earnings E ids teamplay vb w = (Inr d3, w3) \<longrightarrow>
      (\<exists>rps rss. length rps = length ids \<and> length rss = length ids \<and>
         exchanges w3 = exchanges w @
           zip (map (results_request E
                      (if teamplay then base_url @ tournament_team_results_by_tournament_id
                       else base_url @ tournament_results_by_tournament_id)) ids) rps \<and>
         rows d3 = concat rss \<and>
         (\<forall>i<length ids. length (rss ! i) = length (reply_rows (rps ! i)) \<and>
            (\<forall>j<length (rss ! i). cell (rss ! i ! j) ''TournamentId'' = ids ! i \<and>
               (\<forall>c. c \<noteq> ''TournamentId'' \<longrightarrow>
                  cell (rss ! i ! j) c = cell (reply_rows (rps ! i) ! j) c)))))"
proof -
  have a: "\<exists>rps rss. length rps = length ids \<and> length rss = length ids \<and>
         exchanges w1 = exchanges w @ zip (map (games_request E) ids) rps \<and>
         rows d1 = concat rss \<and>
         (\<forall>i<length ids. length (rss ! i) = length (reply_rows (rps ! i)) \<and>
            (\<forall>j<length (rss ! i). cell (rss ! i ! j) ''GameId'' = ids ! i \<and>
               (\<forall>c. c \<noteq> ''GameId'' \<longrightarrow>
                  cell (rss ! i ! j) c = cell (reply_rows (rps ! i) ! j) c)))"
    if "get_games_data E ids vb w = (Inr d1, w1)"
  proof -
    from get_games_data_trace [OF that] obtain rps where
      rps: "length rps = length ids"
      "exchanges w1 = exchanges w @ zip (map (games_request E) ids) rps"
      "rows d1 = concat (map (\<lambda>(ident, rp). tagged ''GameId'' ident rp) (zip ids rps))"
      by blast
    from tagged_groups [OF rps(1), of "''GameId''" reply_rows] obtain rss where
      "length rss = length ids"
      "concat (map (\<lambda>(ident, x). map (AList.update ''GameId'' ident) (reply_rows x)) (zip ids rps)) =
         concat rss"
      "\<forall>i<length ids. length (rss ! i) = length (reply_rows (rps ! i)) \<and>
              (\<forall>j<length (rss ! i). cell (rss ! i ! j) ''GameId'' = ids ! i \<and>
                 (\<forall>c'. c' \<noteq> ''GameId'' \<longrightarrow>
                    cell (rss ! i ! j) c' = cell (reply_rows (rps ! i) ! j) c'))"
      by blast
    with rps show ?thesis unfolding tagged_def by auto
  qed
  have b: "\<exists>gs rss. length gs = length ids \<and> length rss = length ids \<and>
         exchanges w2 = exchanges w @ concat gs \<and>
         (\<forall>i<length ids. gs ! i \<noteq> [] \<and>
            map fst (gs ! i) =
              map (\<lambda>j. earnings_request E
                     (if teamplay then base_url @ highest_earning_teams_by_game
                      else base_url @ highest_earning_players_by_game) (ids ! i) (int j * limit))
                [0..<length (gs ! i)]) \<and>
         rows d2 = concat rss \<and>
         (\<forall>i<length ids.
            length (rss ! i) = length (concat (map (\<lambda>x. reply_rows (snd x)) (gs ! i))) \<and>
            (\<forall>j<length (rss ! i). cell (rss ! i ! j) ''GameId'' = ids ! i \<and>
               (\<forall>c. c \<noteq> ''GameId'' \<longrightarrow>
                  cell (rss ! i ! j) c =
                    cell (concat (map (\<lambda>x. reply_rows (snd x)) (gs ! i)) ! j) c)))"
    if "get_game_earnings E ids teamplay limit vb w = Some (Inr d2, w2)"
  proof -
    from get_game_earnings_trace [OF that] obtain gs where
      "length gs = length ids \<and>
       exchanges w2 = exchanges w @ concat gs \<and>
       (\<forall>i<length ids. gs ! i \<noteq> [] \<and>
          map fst (gs ! i) =
            map (\<lambda>j. earnings_request E
                   (if teamplay then base_url @ highest_earning_teams_by_game
                    else base_url @ highest_earning_players_by_game) (ids ! i) (int j * limit))
              [0..<length (gs ! i)]) \<and>
       rows d2 =
         concat (map (\<lambda>(ident, g). concat (map (\<lambda>x. tagged ''GameId'' ident (snd x)) g)) (zip ids gs)) \<and>
       files w2 = files w" ..
    then have gs: "length gs = length ids"
      "exchanges w2 = exchanges w @ concat gs"
      "\<forall>i<length ids. gs ! i \<noteq> [] \<and>
          map fst (gs ! i) =
            map (\<lambda>j. earnings_request E
                   (if teamplay then base_url @ highest_earning_teams_by_game
                    else base_url @ highest_earning_players_by_game) (ids ! i) (int j * limit))
              [0..<length (gs ! i)]"
      "rows d2 =
         concat (map (\<lambda>(ident, g). concat (map (\<lambda>x. tagged ''GameId'' ident (snd x)) g)) (zip ids gs))"
      by simp_all
    from tagged_groups [OF gs(1), of "''GameId''" "\<lambda>g. concat (map (\<lambda>x. reply_rows (snd x)) g)"]
    obtain rss where rss: "length rss = length ids"
      "concat (map (\<lambda>(ident, g). map (AList.update ''GameId'' ident)
                 (concat (map (\<lambda>x. reply_rows (snd x)) g))) (zip ids gs)) = concat rss"
      "\<forall>i<length ids.
          length (rss ! i) = length (concat (map (\<lambda>x. reply_rows (snd x)) (gs ! i))) \<and>
          (\<forall>j<length (rss ! i). cell (rss ! i ! j) ''GameId'' = ids ! i \<and>
             (\<forall>c'. c' \<noteq> ''GameId'' \<longrightarrow>
                cell (rss ! i ! j) c' =
                  cell (concat (map (\<lambda>x. reply_rows (snd x)) (gs ! i)) ! j) c'))"
      by blast
    from gs(4) rss(2) have "rows d2 = concat rss" by (simp only: tagged_pages)
    with gs(1-3) rss(1,3) show ?thesis by blast
  qed
  have c: "\<exists>rps rss. length rps = length ids \<and> length rss = length ids \<and>
         exchanges w3 = exchanges w @
           zip (map (results_request E
                      (if teamplay then base_url @ tournament_team_results_by_tournament_id
                       else base_url @ tournament_results_by_tournament_id)) ids) rps \<and>
         rows d3 = concat rss \<and>
         (\<forall>i<length ids. length (rss ! i) = length (reply_rows (rps ! i)) \<and>
            (\<forall>j<length (rss ! i). cell (rss ! i ! j) ''TournamentId'' = ids ! i \<and>
               (\<forall>c. c \<noteq> ''TournamentId'' \<longrightarrow>
                  cell (rss ! i ! j) c = cell (reply_rows (rps ! i) ! j) c)))"
    if "get_tournament_earnings E ids teamplay vb w = (Inr d3, w3)"
  proof -
    from get_tournament_earnings_trace [OF that] obtain rps where
      rps: "length rps = length ids"
      "exchanges w3 = exchanges w @
         zip (map (results_request E
                    (if teamplay then base_url @ tournament_team_results_by_tournament_id
                     else base_url @ tournament_results_by_tournament_id)) ids) rps"
      "rows d3 = concat (map (\<lambda>(ident, rp). tagged ''TournamentId'' ident rp) (zip ids rps))"
      by blast
    from tagged_groups [OF rps(1), of "''TournamentId''" reply_rows] obtain rss where
      "length rss = length ids"
      "concat (map (\<lambda>(ident, x). map (AList.update ''TournamentId'' ident) (reply_rows x)) (zip ids rps)) =
         concat rss"
      "\<forall>i<length ids. length (rss ! i) = length (reply_rows (rps ! i)) \<and>
              (\<forall>j<length (rss ! i). cell (rss ! i ! j) ''TournamentId'' = ids ! i \<and>
                 (\<forall>c'. c' \<noteq> ''TournamentId'' \<longrightarrow>
                    cell (rss ! i ! j) c' = cell (reply_rows (rps ! i) ! j) c'))"
      by blast
    with rps show ?thesis unfolding tagged_def by auto
  qed
  from a b c show ?thesis by blast
qed

lemmas eval_defs =
  get_game_earnings_def earnings_for_game_def earnings_step_def get_data_def
  get_games_data_def games_params_def get_tournament_earnings_def results_params_def getattr_def
  api_env_def api_server_def example_ids_def start_world_def print_def sleep_def Let_def
  earnings_params_def base_url_def highest_earning_players_by_game_def game_by_id_def
  highest_earning_teams_by_game_def tournament_results_by_tournament_id_def
  tournament_team_results_by_tournament_id_def
  json_normalize_def unique_def setitem_def df_append_def DataFrame_empty_def shape0_def
  player_row_def wait_time_in_seconds_def

lemma example_runs:
  "games_run = (Inr games_table, snd games_run)"
  "earnings_run = Some (Inr earnings_table, snd (the earnings_run))"
  "results_run = (Inr results_table, snd results_run)"
  "length (exchanges (snd games_run)) = 2"
  "length (exchanges (snd (the earnings_run))) = 3"
  "length (exchanges (snd results_run)) = 2"
  unfolding games_run_def earnings_run_def results_run_def games_table_def earnings_table_def
    results_table_def
  by (simp_all add: eval_defs while_loop.simps)


theorem per_id_tag_overwrites_witness:
  "games_run = (Inr games_table, snd games_run) \<and>
   earnings_run = Some (Inr earnings_table, snd (the earnings_run)) \<and>
   results_run = (Inr results_table, snd results_run) \<and>
   cell (player_row 1) ''GameId'' = VInt 999 \<and>
   (\<exists>rps rss. length rps = length example_ids \<and> length rss = length example_ids \<and>
      exchanges (snd games_run) =
        exchanges start_world @ zip (map (games_request api_env) example_ids) rps \<and>
      rows games_table = concat rss \<and>
      (\<forall>i<length example_ids. length (rss ! i) = length (reply_rows (rps ! i)) \<and>
         (\<forall>j<length (rss ! i). cell (rss ! i ! j) ''GameId'' = example_ids ! i \<and>
            (\<forall>c. c \<noteq> ''GameId'' \<longrightarrow>
               cell (rss ! i ! j) c = cell (reply_rows (rps ! i) ! j) c)))) \<and>
   (\<exists>gs rss. length gs = length example_ids \<and> length rss = length example_ids \<and>
      exchanges (snd (the earnings_run)) = exchanges start_world @ concat gs \<and>
      (\<forall>i<length example_ids. gs ! i \<noteq> [] \<and>
         map fst (gs ! i) =
           map (\<lambda>j. earnings_request api_env
                  (if False then base_url @ highest_earning_teams_by_game
                   else base_url @ highest_earning_players_by_game) (example_ids ! i) (int j * 2))
             [0..<length (gs ! i)]) \<and>
      rows earnings_table = concat rss \<and>
      (\<forall>i<length example_ids.
         length (rss ! i) = length (concat (map (\<lambda>x. reply_rows (snd x)) (gs ! i))) \<and>
         (\<forall>j<length (rss ! i). cell (rss ! i ! j) ''GameId'' = example_ids ! i \<and>
            (\<forall>c. c \<noteq> ''GameId'' \<longrightarrow>
               cell (rss ! i ! j) c =
                 cell (concat (map (\<lambda>x. reply_rows (snd x)) (gs ! i)) ! j) c)))) \<and>
   (\<exists>rps rss. length rps = length example_ids \<and> length rss = length example_ids \<and>
      exchanges (snd results_run) =
        exchanges start_world @
          zip (map (results_request api_env
                     (if False then base_url @ tournament_team_results_by_tournament_id
                      else base_url @ tournament_results_by_tournament_id)) example_ids) rps \<and>
      rows results_table = concat rss \<and>
      (\<forall>i<length example_ids. length (rss ! i) = length (reply_rows (rps ! i)) \<and>
         (\<forall>j<length (rss ! i). cell (rss ! i ! j) ''TournamentId'' = example_ids ! i \<and>
            (\<forall>c. c \<noteq> ''TournamentId'' \<longrightarrow>
               cell (rss ! i ! j) c = cell (reply_rows (rps ! i) ! j) c))))"
proof -
  have c: "cell (player_row 1) ''GameId'' = VInt 999"
    by (simp add: player_row_def cell_def)
  show ?thesis
    using per_id_tag_overwrites
      [where E = api_env and ids = example_ids and vb = False and w = start_world
         and teamplay = False and limit = 2
         and ?d1.0 = games_table and ?w1.0 = "snd games_run"
         and ?d2.0 = earnings_table and ?w2.0 = "snd (the earnings_run)"
         and ?d3.0 = results_table and ?w3.0 = "snd results_run"]
      example_runs(1-3) c
    unfolding games_run_def earnings_run_def results_run_def
    by blast
qed

lemma example_pages:
  "\<not> isl (fetched (earnings_reply api_env players_url (VInt 7) 2 (length (exchanges start_world)) 0))"
  "\<not> isl (fetched (earnings_reply api_env players_url (VInt 7) 2 (length (exchanges start_world)) (Suc 0)))"
  "int (length (reply_rows
      (earnings_reply api_env players_url (VInt 7) 2 (length (exchanges start_world)) 0))) = 2"
  "int (length (reply_rows
      (earnings_reply api_env players_url (VInt 7) 2 (length (exchanges start_world)) (Suc 0)))) < 2"
  by code_simp+

theorem earnings_for_game_stops_on_short_page_witness:
  "\<not> isl (fetched (earnings_reply api_env players_url (VInt 7) 2 (length (exchanges start_world)) 0)) \<and>
   \<not> isl (fetched (earnings_reply api_env players_url (VInt 7) 2 (length (exchanges start_world)) (Suc 0))) \<and>
   int (length (reply_rows
      (earnings_reply api_env players_url (VInt 7) 2 (length (exchanges start_world)) 0))) = 2 \<and>
   int (length (reply_rows
      (earnings_reply api_env players_url (VInt 7) 2 (length (exchanges start_world)) (Suc 0)))) < 2 \<and>
   (\<exists>d w'. earnings_for_game api_env players_url 2 False (VInt 7) DataFrame_empty start_world =
        Some (Inr d, w') \<and>
      rows d = rows DataFrame_empty @
        tagged ''GameId'' (VInt 7)
          (earnings_reply api_env players_url (VInt 7) 2 (length (exchanges start_world)) 0) @
        tagged ''GameId'' (VInt 7)
          (earnings_reply api_env players_url (VInt 7) 2 (length (exchanges start_world)) (Suc 0)) \<and>
      length (rows d) = length (rows DataFrame_empty) +
        length (reply_rows
          (earnings_reply api_env players_url (VInt 7) 2 (length (exchanges start_world)) 0)) +
        length (reply_rows
          (earnings_reply api_env players_url (VInt 7) 2 (length (exchanges start_world)) (Suc 0))) \<and>
      exchanges w' = exchanges start_world @
        [earnings_exchange api_env players_url (VInt 7) 2 (length (exchanges start_world)) 0,
         earnings_exchange api_env players_url (VInt 7) 2 (length (exchanges start_world)) (Suc 0)]) \<and>
   (\<exists>d w'. earnings_for_game api_env players_url 2 False (VInt 7) DataFrame_empty start_world =
        Some (Inr d, w') \<and> length (exchanges w') = length (exchanges start_world) + 2)"
proof -
  note t = earnings_for_game_stops_on_short_page
      [where E = api_env and u = players_url and limit = 2 and vb = False and g = "VInt 7"
         and acc = DataFrame_empty and w = start_world and n = 2]
  from t example_pages
  have a: "\<exists>d w'. earnings_for_game api_env players_url 2 False (VInt 7) DataFrame_empty start_world =
        Some (Inr d, w') \<and>
      rows d = rows DataFrame_empty @
        tagged ''GameId'' (VInt 7)
          (earnings_reply api_env players_url (VInt 7) 2 (length (exchanges start_world)) 0) @
        tagged ''GameId'' (VInt 7)
          (earnings_reply api_env players_url (VInt 7) 2 (length (exchanges start_world)) (Suc 0)) \<and>
      length (rows d) = length (rows DataFrame_empty) +
        length (reply_rows
          (earnings_reply api_env players_url (VInt 7) 2 (length (exchanges start_world)) 0)) +
        length (reply_rows
          (earnings_reply api_env players_url (VInt 7) 2 (length (exchanges start_world)) (Suc 0))) \<and>
      exchanges w' = exchanges start_world @
        [earnings_exchange api_env players_url (VInt 7) 2 (length (exchanges start_world)) 0,
         earnings_exchange api_env players_url (VInt 7) 2 (length (exchanges start_world)) (Suc 0)]"
    by blast
  then have b: "\<exists>d w'. earnings_for_game api_env players_url 2 False (VInt 7) DataFrame_empty start_world =
        Some (Inr d, w') \<and> length (exchanges w') = length (exchanges start_world) + 2"
    by auto
  from a b example_pages show ?thesis by blast
qed

lemma keeps_files_and_then:
  assumes "keeps_files F m" and "\<And>x w1. files w1 = F \<Longrightarrow> keeps_files F (k x w1)"
  shows "keeps_files F (and_then m k)"
  using assms
  by (auto simp: keeps_files_def and_then_def split: option.splits sum.splits prod.splits)

lemma keeps_files_pure: "files w = F \<Longrightarrow> keeps_files F (Some (r, w))"
  by (simp add: keeps_files_def)

lemma keeps_files_tournament:
  "files w = F \<Longrightarrow> keeps_files F (get_tournament_data E until limit vb w)"
  unfolding keeps_files_def
  using get_tournament_data_cases by blast

lemma games_loop_files: "games_loop E vb ids acc w = (r, w') \<Longrightarrow> files w' = files w"
proof (induction ids arbitrary: acc w vb)
  case Nil
  then show ?case by simp
next
  case (Cons g ids)
  show ?case
  proof (cases "fetched (server E (length (exchanges w)) \<lparr>url = base_url @ game_by_id, params = games_params E g\<rparr>)")
    case (Inl e)
    with Cons.prems show ?thesis by (auto simp: get_data_eq Let_def)
  next
    case (Inr f)
    with Cons.prems show ?thesis
      by (auto simp: get_data_eq Let_def sleep_def print_def
          split: if_splits sum.splits list.splits dest!: Cons.IH)
  qed
qed

lemma results_loop_files: "results_loop E u vb ids acc w = (r, w') \<Longrightarrow> files w' = files w"
proof (induction ids arbitrary: acc w vb)
  case Nil
  then show ?case by simp
next
  case (Cons g ids)
  show ?case
  proof (cases "fetched (server E (length (exchanges w)) \<lparr>url = u, params = results_params E g\<rparr>)")
    case (Inl e)
    with Cons.prems show ?thesis by (auto simp: get_data_eq Let_def)
  next
    case (Inr f)
    with Cons.prems show ?thesis
      by (auto simp: get_data_eq Let_def sleep_def print_def
          split: if_splits sum.splits dest!: Cons.IH)
  qed
qed

lemma earnings_loop_files:
  "earnings_loop E u limit vb ids acc w = Some (r, w') \<Longrightarrow> files w' = files w"
proof (induction ids arbitrary: acc w)
  case Nil
  then show ?case by simp
next
  case (Cons g ids)
  from Cons.prems obtain r1 w1 where one: "earnings_for_game E u limit vb g acc w = Some (r1, w1)"
    by (auto split: option.splits)
  from earnings_for_game_cases [OF one] have f1: "files w1 = files w" by blast
  show ?case
  proof (cases r1)
    case (Inl e)
    with Cons.prems one f1 show ?thesis by simp
  next
    case (Inr acc')
    with Cons.prems one have "earnings_loop E u limit vb ids acc' w1 = Some (r, w')" by simp
    from Cons.IH [OF this] f1 show ?thesis by simp
  qed
qed

lemma keeps_files_games:
  "files w = F \<Longrightarrow> keeps_files F (Some (get_games_data E ids vb w))"
  unfolding keeps_files_def get_games_data_def
  by (auto simp: print_def dest!: games_loop_files)

lemma keeps_files_results:
  "files w = F \<Longrightarrow> keeps_files F (Some (get_tournament_earnings E ids teamplay vb w))"
  unfolding keeps_files_def get_tournament_earnings_def
  by (auto dest!: results_loop_files)

lemma keeps_files_earnings:
  "files w = F \<Longrightarrow> keeps_files F (get_game_earnings E ids teamplay limit vb w)"
  unfolding keeps_files_def get_game_earnings_def
  by (auto simp: print_def dest!: earnings_loop_files split: if_splits)

lemma keeps_files_extraction: "keeps_files (files w) (extraction E w)"
  unfolding extraction_def
  by (intro keeps_files_and_then keeps_files_tournament keeps_files_games keeps_files_results
        keeps_files_earnings keeps_files_pure)
     (simp_all add: print_def)

lemma extraction_files: "extraction E w = Some (r, w') \<Longrightarrow> files w' = files w"
  using keeps_files_extraction [of w E] by (simp add: keeps_files_def)

lemma save_data_Inr_files:
  "save_data E t w = Some (Inr x, w') \<Longrightarrow>
   files w' = files w @
     [(''data/tournaments.csv'', df_tournaments t), (''data/games.csv'', df_games t),
      (''data/solo_earnings.csv'', df_solo_earnings t),
      (''data/team_earnings.csv'', df_team_earnings t),
      (''data/solo_tournament_earnings.csv'', df_solo_tournament_earnings t),
      (''data/team_tournament_earnings.csv'', df_team_tournament_earnings t)]"
  by (auto simp: save_data_def and_then_def to_csv_def split: if_splits)

lemma save_data_total: "\<exists>r w'. save_data E t w = Some (r, w')"
  by (auto simp: save_data_def and_then_def to_csv_def)

lemma pipeline_page:
  "tournament_page (pipeline_env named) 0 100 0 =
     Inr ((json_normalize (replicate 100 (example_row ''2022-11-01'')))
            \<lparr>rows := replicate 100 (processed_example_row (2022, 11, 1))\<rparr>)"
proof -
  have s0: "server (pipeline_env named) (0 + 0) (tournament_request (pipeline_env named) (int 0 * 100)) =
          Response 200 ''[...]'' (Some (replicate 100 (example_row ''2022-11-01'')))"
    by (simp add: pipeline_env_def pipeline_server_def tournament_request_def)
  have p1: "float_cell (pipeline_env named) ''TotalUSDPrize''
          (date_cell (pipeline_env named) ''EndDate''
            (date_cell (pipeline_env named) ''StartDate'' (example_row ''2022-11-01''))) =
        processed_example_row (2022, 11, 1)"
    by (simp add: float_cell_def date_cell_def pipeline_env_def example_row_def cell_def
        example_to_date_def example_astype_float_def processed_example_row_def)
  show ?thesis
    using p1
    by (subst tournament_page_well_formed [OF s0])
       (simp_all add: pipeline_env_def example_row_def cell_def example_to_date_def
          example_astype_float_def map_replicate)
qed

lemma pipeline_tournaments:
  "\<exists>w1. get_tournament_data (pipeline_env named) query_min_date 100 verbose start_world =
          Some (Inr ((json_normalize (replicate 100 (example_row ''2022-11-01'')))
                       \<lparr>rows := replicate 100 (processed_example_row (2022, 11, 1))\<rparr>), w1) \<and>
        length (exchanges w1) = 1 \<and> files w1 = []"
proof -
  have e: "length (exchanges start_world) = 0" "files start_world = []"
    by (simp_all add: start_world_def)
  have pf: "page_frame (pipeline_env named) 0 100 0 =
      (json_normalize (replicate 100 (example_row ''2022-11-01'')))
            \<lparr>rows := replicate 100 (processed_example_row (2022, 11, 1))\<rparr>"
    by (simp add: page_frame_def pipeline_page)
  have acc: "accumulated (pipeline_env named) 0 100 (Suc 0) =
      (json_normalize (replicate 100 (example_row ''2022-11-01'')))
            \<lparr>rows := replicate 100 (processed_example_row (2022, 11, 1))\<rparr>"
    by (simp add: accumulated_Suc accumulated_0 pf df_append_def DataFrame_empty_def
        json_normalize_def unique_def)
  have st: "stops_after (pipeline_env named) 0 query_min_date 100 (Suc 0)"
    by (simp add: stops_after_def pf shape0_def acc StartDates_replicate query_min_date_def)
  have c: "continues_through (pipeline_env named) 0 query_min_date 100 (Suc 0)"
    by (simp add: continues_through_def pages_ok_def pipeline_page stops_after_def)
  from get_tournament_data_stop [of "pipeline_env named" start_world query_min_date 100 "Suc 0" verbose]
    c st show ?thesis unfolding e by (simp add: acc e)
qed

lemma remdups_replicate: "remdups (replicate n x) = (if n = 0 then [] else [x])"
  by (induction n) auto

lemma unique_replicate: "unique (replicate n x) = (if n = 0 then [] else [x])"
  by (simp add: unique_def remdups_replicate)

lemma unique_Nil: "unique [] = []"
  by (simp add: unique_def)

lemmas pipeline_defs = unique_Nil
  and_then_def unique_of_def getattr_def select_eq_def eq_int_def json_normalize_def
  get_games_data_def get_data_def get_game_earnings_def earnings_for_game_def earnings_step_def
  get_tournament_earnings_def games_params_def earnings_params_def results_params_def
  pipeline_env_def pipeline_server_def print_def sleep_def Let_def verbose_def
  base_url_def recent_tournaments_def highest_earning_players_by_game_def game_by_id_def
  highest_earning_teams_by_game_def tournament_results_by_tournament_id_def
  tournament_team_results_by_tournament_id_def
  setitem_def df_append_def DataFrame_empty_def shape0_def
  player_row_def result_row_def wait_time_in_seconds_def
  processed_example_row_def example_row_def cell_def unique_replicate filter_replicate

lemma pipeline_extraction:
  "\<exists>t w'. extraction (pipeline_env named) start_world = Some (Inr t, w') \<and>
     df_solo_earnings t =
       \<lparr>columns = [''PlayerId'', ''NameFirst'', ''NameLast'', ''GameId''],
        rows = [[(''PlayerId'', VInt 1), (''NameFirst'', VStr ''Ada''), (''NameLast'', VStr ''Doe''),
                 (''GameId'', VInt 151)]]\<rparr> \<and>
     df_solo_tournament_earnings t =
       \<lparr>columns = map fst (result_row named),
        rows = [AList.update ''TournamentId'' (VInt 1) (result_row named)]\<rparr>"
proof -
  from pipeline_tournaments [of named] obtain w1 where
    t: "get_tournament_data (pipeline_env named) query_min_date 100 verbose start_world =
          Some (Inr ((json_normalize (replicate 100 (example_row ''2022-11-01'')))
                       \<lparr>rows := replicate 100 (processed_example_row (2022, 11, 1))\<rparr>), w1)"
    by blast
  show ?thesis
    unfolding extraction_def t
    by (simp add: pipeline_defs while_loop.simps) (simp add: unique_def)
qed

lemma main_cases:
  assumes "main E w = Some (r, w')"
  shows "(\<exists>e. extraction E w = Some (Inl e, w') \<and> r = Inl e \<and> files w' = files w) \<or>
         (\<exists>t e. extraction E w = Some (Inr t, w') \<and> final_postprocessing t = Inl e \<and> r = Inl e \<and>
                files w' = files w) \<or>
         (\<exists>t w1 t'. extraction E w = Some (Inr t, w1) \<and> final_postprocessing t = Inr t' \<and>
                save_data E t' w1 = Some (r, w') \<and> files w1 = files w)"
proof -
  from assms obtain r1 w1 where x: "extraction E w = Some (r1, w1)"
    by (auto simp: main_def and_then_def split: option.splits)
  from extraction_files [OF x] have f: "files w1 = files w" .
  show ?thesis
  proof (cases r1)
    case (Inl e)
    with assms x f show ?thesis by (auto simp: main_def and_then_def)
  next
    case (Inr t)
    show ?thesis
    proof (cases "final_postprocessing t")
      case (Inl e)
      with assms x f Inr show ?thesis by (auto simp: main_def and_then_def)
    next
      case (Inr t')
      with assms x f \<open>r1 = Inr t\<close> show ?thesis by (auto simp: main_def and_then_def)
    qed
  qed
qed

lemma extraction_tournament_fault:
  "get_tournament_data E query_min_date 100 verbose w = Some (Inl e, w') \<Longrightarrow>
   extraction E w = Some (Inl e, w')"
  by (simp add: extraction_def and_then_def)

text \<open>
  Claim C7. A fault that ends the extraction part of \<^verbatim>\<open>main\<close>, or that the final
  post-processing raises, is the outcome of the whole run, and the run has written no file.
  This holds in particular for a fault of \<^verbatim>\<open>get_tournament_data\<close>, such as the KeyError
  that \<^verbatim>\<open>process_tournaments\<close> raises when the first page lacks an expected column.
  Conversely, a run that ended having written a file has completed the extraction and the
  post-processing and was in the save section.
\<close>

theorem main_fault_leaves_no_file:
  "(extraction E w = Some (Inl e, w1) \<longrightarrow>
      main E w = Some (Inl e, w1) \<and> files w1 = files w) \<and>
   (extraction E w = Some (Inr t, w2) \<and> final_postprocessing t = Inl e \<longrightarrow>
      main E w = Some (Inl e, w2) \<and> files w2 = files w) \<and>
   (get_tournament_data E query_min_date 100 verbose w = Some (Inl e, w1) \<longrightarrow>
      main E w = Some (Inl e, w1) \<and> files w1 = files w) \<and>
   (tournament_page E (length (exchanges w)) 100 0 = Inl e \<longrightarrow>
      (\<exists>w'. main E w = Some (Inl e, w') \<and> files w' = files w)) \<and>
   (main E w = Some (r, w3) \<and> files w3 \<noteq> files w \<longrightarrow>
      (\<exists>t w' t'. extraction E w = Some (Inr t, w') \<and> final_postprocessing t = Inr t' \<and>
         save_data E t' w' = Some (r, w3) \<and> files w' = files w))"
proof -
  have a: "main E w = Some (Inl e, w1) \<and> files w1 = files w"
    if "extraction E w = Some (Inl e, w1)" for e w1
    using that extraction_files [OF that] by (simp add: main_def and_then_def)
  have b: "main E w = Some (Inl e, w2) \<and> files w2 = files w"
    if "extraction E w = Some (Inr t, w2) \<and> final_postprocessing t = Inl e"
  proof -
    from that have x: "extraction E w = Some (Inr t, w2)" and p: "final_postprocessing t = Inl e"
      by simp_all
    from x p extraction_files [OF x] show ?thesis by (simp add: main_def and_then_def)
  qed
  have c: "main E w = Some (Inl e, w1) \<and> files w1 = files w"
    if "get_tournament_data E query_min_date 100 verbose w = Some (Inl e, w1)"
    using a [OF extraction_tournament_fault [OF that]] .
  have d: "\<exists>w'. main E w = Some (Inl e, w') \<and> files w' = files w"
    if "tournament_page E (length (exchanges w)) 100 0 = Inl e"
  proof -
    from tournament_first_page_fault [OF that, of query_min_date verbose] obtain w' where
      "get_tournament_data E query_min_date 100 verbose w = Some (Inl e, w')" by blast
    from a [OF extraction_tournament_fault [OF this]] show ?thesis by blast
  qed
  have f: "\<exists>t w' t'. extraction E w = Some (Inr t, w') \<and> final_postprocessing t = Inr t' \<and>
         save_data E t' w' = Some (r, w3) \<and> files w' = files w"
    if "main E w = Some (r, w3) \<and> files w3 \<noteq> files w"
  proof -
    from that have m: "main E w = Some (r, w3)" and n: "files w3 \<noteq> files w" by simp_all
    from main_cases [OF m] n show ?thesis by blast
  qed
  from a b c d f show ?thesis by blast
qed

lemma save_data_writable:
  assumes "\<And>p. writable E p"
  shows "save_data E t w = Some (Inr (), w\<lparr>files := files w @
     [(''data/tournaments.csv'', df_tournaments t), (''data/games.csv'', df_games t),
      (''data/solo_earnings.csv'', df_solo_earnings t),
      (''data/team_earnings.csv'', df_team_earnings t),
      (''data/solo_tournament_earnings.csv'', df_solo_tournament_earnings t),
      (''data/team_tournament_earnings.csv'', df_team_tournament_earnings t)]\<rparr>)"
  using assms by (simp add: save_data_def and_then_def to_csv_def)

lemma no_prize_page:
  "tournament_page no_prize_env (length (exchanges start_world)) 100 0 =
     Inl (KeyError ''TotalUSDPrize'')"
  by code_simp

lemma no_prize_run:
  "get_tournament_data no_prize_env query_min_date 100 verbose start_world =
     Some (Inl (KeyError ''TotalUSDPrize''),
           snd (the (get_tournament_data no_prize_env query_min_date 100 verbose start_world)))"
  using tournament_first_page_fault [OF no_prize_page, of query_min_date verbose] by auto

lemma pipeline_unnamed:
  "\<exists>t w2. extraction (pipeline_env False) start_world = Some (Inr t, w2) \<and>
       final_postprocessing t = Inl (KeyError ''NameFirst'')"
proof -
  from pipeline_extraction [of False] obtain t w' where
    x: "extraction (pipeline_env False) start_world = Some (Inr t, w')"
    and s: "df_solo_earnings t =
       \<lparr>columns = [''PlayerId'', ''NameFirst'', ''NameLast'', ''GameId''],
        rows = [[(''PlayerId'', VInt 1), (''NameFirst'', VStr ''Ada''), (''NameLast'', VStr ''Doe''),
                 (''GameId'', VInt 151)]]\<rparr>"
    and r: "df_solo_tournament_earnings t =
       \<lparr>columns = map fst (result_row False),
        rows = [AList.update ''TournamentId'' (VInt 1) (result_row False)]\<rparr>"
    by blast
  have "final_postprocessing t = Inl (KeyError ''NameFirst'')"
    by (simp add: final_postprocessing_def drop_columns_def s r result_row_def)
  with x show ?thesis by blast
qed

lemma pipeline_named:
  "\<exists>w3. main (pipeline_env True) start_world = Some (Inr (), w3) \<and>
       map fst (files w3) =
         [''data/tournaments.csv'', ''data/games.csv'', ''data/solo_earnings.csv'',
          ''data/team_earnings.csv'', ''data/solo_tournament_earnings.csv'',
          ''data/team_tournament_earnings.csv'']"
proof -
  from pipeline_extraction [of True] obtain t w' where
    x: "extraction (pipeline_env True) start_world = Some (Inr t, w')"
    and s: "df_solo_earnings t =
       \<lparr>columns = [''PlayerId'', ''NameFirst'', ''NameLast'', ''GameId''],
        rows = [[(''PlayerId'', VInt 1), (''NameFirst'', VStr ''Ada''), (''NameLast'', VStr ''Doe''),
                 (''GameId'', VInt 151)]]\<rparr>"
    and r: "df_solo_tournament_earnings t =
       \<lparr>columns = map fst (result_row True),
        rows = [AList.update ''TournamentId'' (VInt 1) (result_row True)]\<rparr>"
    by blast
  from extraction_files [OF x] have f: "files w' = []" by (simp add: start_world_def)
  obtain t' where p: "final_postprocessing t = Inr t'"
    by (simp add: final_postprocessing_def drop_columns_def s r result_row_def)
  have w: "\<And>p. writable (pipeline_env True) p" by (simp add: pipeline_env_def)
  from x p f show ?thesis
    by (simp add: main_def and_then_def save_data_writable [OF w])
qed

text \<open>
  Three runs of the pipeline: tournaments without the prize column (KeyError, nothing
  written); a full run whose tournament results lack the name columns (KeyError from
  \<^verbatim>\<open>drop\<close>, nothing written); and a full run that reaches the save section and writes the
  six files.
\<close>

theorem main_fault_leaves_no_file_witness:
  "tournament_page no_prize_env (length (exchanges start_world)) 100 0 =
     Inl (KeyError ''TotalUSDPrize'') \<and>
   get_tournament_data no_prize_env query_min_date 100 verbose start_world =
     Some (Inl (KeyError ''TotalUSDPrize''),
           snd (the (get_tournament_data no_prize_env query_min_date 100 verbose start_world))) \<and>
   extraction no_prize_env start_world =
     Some (Inl (KeyError ''TotalUSDPrize''),
           snd (the (get_tournament_data no_prize_env query_min_date 100 verbose start_world))) \<and>
   main no_prize_env start_world =
     Some (Inl (KeyError ''TotalUSDPrize''),
           snd (the (get_tournament_data no_prize_env query_min_date 100 verbose start_world))) \<and>
   files (snd (the (get_tournament_data no_prize_env query_min_date 100 verbose start_world))) =
     files start_world \<and>
   (\<exists>t w2. extraction (pipeline_env False) start_world = Some (Inr t, w2) \<and>
      final_postprocessing t = Inl (KeyError ''NameFirst'') \<and>
      main (pipeline_env False) start_world = Some (Inl (KeyError ''NameFirst''), w2) \<and>
      files w2 = files start_world) \<and>
   (\<exists>w3. main (pipeline_env True) start_world = Some (Inr (), w3) \<and>
      files w3 \<noteq> files start_world \<and>
      (\<exists>t w' t'. extraction (pipeline_env True) start_world = Some (Inr t, w') \<and>
         final_postprocessing t = Inr t' \<and>
         save_data (pipeline_env True) t' w' = Some (Inr (), w3) \<and> files w' = files start_world))"
proof -
  let ?W = "snd (the (get_tournament_data no_prize_env query_min_date 100 verbose start_world))"
  note t1 = main_fault_leaves_no_file
    [where E = no_prize_env and w = start_world and e = "KeyError ''TotalUSDPrize''" and ?w1.0 = ?W]
  from t1 no_prize_run
  have a: "main no_prize_env start_world = Some (Inl (KeyError ''TotalUSDPrize''), ?W)"
    "files ?W = files start_world"
    by blast+
  have b: "extraction no_prize_env start_world = Some (Inl (KeyError ''TotalUSDPrize''), ?W)"
    using extraction_tournament_fault [OF no_prize_run] .
  from pipeline_unnamed obtain t w2 where
    u: "extraction (pipeline_env False) start_world = Some (Inr t, w2)"
    "final_postprocessing t = Inl (KeyError ''NameFirst'')" by blast
  from main_fault_leaves_no_file
    [where E = "pipeline_env False" and w = start_world and e = "KeyError ''NameFirst''"
       and t = t and ?w2.0 = w2] u
  have c: "main (pipeline_env False) start_world = Some (Inl (KeyError ''NameFirst''), w2)"
    "files w2 = files start_world"
    by blast+
  from pipeline_named obtain w3 where
    n: "main (pipeline_env True) start_world = Some (Inr (), w3)" "files w3 \<noteq> files start_world"
    by (auto simp: start_world_def)
  from main_fault_leaves_no_file
    [where E = "pipeline_env True" and w = start_world and r = "Inr ()" and ?w3.0 = w3] n
  have d: "\<exists>t w' t'. extraction (pipeline_env True) start_world = Some (Inr t, w') \<and>
         final_postprocessing t = Inr t' \<and>
         save_data (pipeline_env True) t' w' = Some (Inr (), w3) \<and> files w' = files start_world"
    by blast
  from no_prize_page no_prize_run a b u c n d show ?thesis by blast
qed

end
